theory Spec2Isabelle
  imports Main
begin

section \<open>Python values\<close>

text \<open>
  A Python \<^verbatim>\<open>str\<close> is a sequence of Unicode code points, so a string is a list of
  natural numbers; \<open>lit\<close> embeds an ASCII literal of the source.
\<close>

type_synonym str = "nat list"

definition lit :: "string \<Rightarrow> str" where
  "lit s = map of_char s"

text \<open>The exceptions that the modelled code can raise.\<close>

datatype error =
    AttributeError
  | ValueError
  | FileNotFoundError
  | FileExistsError
  | IsADirectoryError
  | TimeoutError
  | CrawlerError
  | APIError
  | RetryError
  | HTTPError nat
  | JSONDecodeError
  | MaxRetryError
  | UnicodeEncodeError
  | UnicodeDecodeError
  | OSError

definition bind_result :: "error + 'a \<Rightarrow> ('a \<Rightarrow> error + 'b) \<Rightarrow> error + 'b" where
  "bind_result m f = (case m of Inl e \<Rightarrow> Inl e | Inr x \<Rightarrow> f x)"

text \<open>\<^verbatim>\<open>str.isspace\<close> on one code point, and \<^verbatim>\<open>str.strip()\<close>.\<close>

definition isspace :: "nat \<Rightarrow> bool" where
  "isspace c \<longleftrightarrow>
     (9 \<le> c \<and> c \<le> 13) \<or> (28 \<le> c \<and> c \<le> 32) \<or> c = 133 \<or> c = 160 \<or> c = 5760 \<or>
     (8192 \<le> c \<and> c \<le> 8202) \<or> c = 8232 \<or> c = 8233 \<or> c = 8239 \<or> c = 8287 \<or> c = 12288"

definition strip :: "str \<Rightarrow> str" where
  "strip s = rev (dropWhile isspace (rev (dropWhile isspace s)))"

section \<open>The parsed document\<close>

text \<open>
  \<^verbatim>\<open>BeautifulSoup(html, 'html.parser')\<close> yields a tree of tags and strings. A tag carries
  its name, the values of its multi-valued \<^verbatim>\<open>class\<close> attribute and its contents; the
  soup object itself is a tag named \<^verbatim>\<open>[document]\<close>. \<open>Comment\<close> stands for the strings that
  \<^verbatim>\<open>get_text\<close> leaves out: comments, declarations, and the text of scripts and styles.
\<close>

datatype node =
    Tag str "str list" "node list"
  | NavigableString str
  | Comment str

text \<open>\<^verbatim>\<open>Tag.descendants\<close>: every node below a tag, in document order.\<close>

fun descendants :: "node \<Rightarrow> node list" where
  "descendants (Tag nm cs kids) = concat (map (\<lambda>k. k # descendants k) kids)"
| "descendants (NavigableString s) = []"
| "descendants (Comment s) = []"

text \<open>The filter of \<^verbatim>\<open>find_all(name, class_=cls)\<close>: a tag of that name one of whose
  class values is \<open>cls\<close>.\<close>

fun matches :: "str \<Rightarrow> str \<Rightarrow> node \<Rightarrow> bool" where
  "matches nm cls (Tag n cs kids) \<longleftrightarrow> n = nm \<and> cls \<in> set cs"
| "matches nm cls (NavigableString s) \<longleftrightarrow> False"
| "matches nm cls (Comment s) \<longleftrightarrow> False"

text \<open>\<^verbatim>\<open>find_all\<close> and \<^verbatim>\<open>find\<close> are called with their default
  \<^verbatim>\<open>recursive=True\<close>: they search the descendants.\<close>

definition find_all :: "node \<Rightarrow> str \<Rightarrow> str \<Rightarrow> node list" where
  "find_all nd nm cls = filter (matches nm cls) (descendants nd)"

definition find_tag :: "node \<Rightarrow> str \<Rightarrow> str \<Rightarrow> node option" where
  "find_tag nd nm cls = (case find_all nd nm cls of [] \<Rightarrow> None | x # xs \<Rightarrow> Some x)"

text \<open>\<^verbatim>\<open>get_text(strip=True)\<close>: the strings below the tag, each one stripped, the empty
  ones dropped, joined by the empty separator.\<close>

fun stripped_strings :: "node \<Rightarrow> str list" where
  "stripped_strings (NavigableString s) = (if strip s = [] then [] else [strip s])"
| "stripped_strings (Tag nm cs kids) = []"
| "stripped_strings (Comment s) = []"

definition get_text :: "node \<Rightarrow> str" where
  "get_text nd = concat (concat (map stripped_strings (descendants nd)))"

text \<open>A method call on the result of \<^verbatim>\<open>find\<close>: on \<^verbatim>\<open>None\<close> it raises.\<close>

definition get_text_of :: "node option \<Rightarrow> error + str" where
  "get_text_of r = (case r of None \<Rightarrow> Inl AttributeError | Some nd \<Rightarrow> Inr (get_text nd))"

section \<open>The extractor\<close>

definition NA :: str where
  "NA = lit ''N/A''"

definition div_tag :: str where
  "div_tag = lit ''div''"

definition listing_marker :: str where
  "listing_marker = lit ''search-list-item''"

text \<open>The seven class names, in the order of the record's fields.\<close>

definition sub_markers :: "str list" where
  "sub_markers = [lit ''property-type'', lit ''rooms'', lit ''size'', lit ''price'',
     lit ''address'', lit ''energy-mark'', lit ''listing-date'']"

text \<open>
  One line of the loop body,
  \<^verbatim>\<open>item.find('div', class_=c).get_text(strip=True) if item.find('div', class_=c) else 'N/A'\<close>.
  A tag is always truthy, so the condition tests for \<^verbatim>\<open>None\<close>.
\<close>

definition scrape_field :: "node \<Rightarrow> str \<Rightarrow> error + str" where
  "scrape_field item cls =
     (if find_tag item div_tag cls \<noteq> None then get_text_of (find_tag item div_tag cls)
      else Inr NA)"

definition listing_record :: "node \<Rightarrow> error + str list" where
  "listing_record item =
     bind_result (scrape_field item (lit ''property-type'')) (\<lambda>property_type.
     bind_result (scrape_field item (lit ''rooms'')) (\<lambda>rooms.
     bind_result (scrape_field item (lit ''size'')) (\<lambda>size.
     bind_result (scrape_field item (lit ''price'')) (\<lambda>price.
     bind_result (scrape_field item (lit ''address'')) (\<lambda>address.
     bind_result (scrape_field item (lit ''energy-mark'')) (\<lambda>energy_mark.
     bind_result (scrape_field item (lit ''listing-date'')) (\<lambda>listing_date.
     Inr [property_type, rooms, size, price, address, energy_mark, listing_date])))))))"

text \<open>The \<^verbatim>\<open>for item in soup.find_all(...)\<close> loop, appending to \<^verbatim>\<open>data\<close>.\<close>

fun extract_loop :: "node list \<Rightarrow> str list list \<Rightarrow> error + str list list" where
  "extract_loop [] data = Inr data"
| "extract_loop (item # items) data =
     bind_result (listing_record item) (\<lambda>row. extract_loop items (data @ [row]))"

definition extract_listings :: "node \<Rightarrow> error + str list list" where
  "extract_listings soup = extract_loop (find_all soup div_tag listing_marker) []"

text \<open>What a field holds: the text of the first matching tag, or the sentinel.\<close>

definition field_value :: "node \<Rightarrow> str \<Rightarrow> str" where
  "field_value item cls =
     (case find_tag item div_tag cls of None \<Rightarrow> NA | Some nd \<Rightarrow> get_text nd)"

section \<open>Reference notions and example documents\<close>

text \<open>The strict descendant relation: the transitive closure of "is in the contents of".\<close>

inductive below :: "node \<Rightarrow> node \<Rightarrow> bool" where
  child: "k \<in> set kids \<Longrightarrow> below k (Tag nm cs kids)"
| deeper: "k \<in> set kids \<Longrightarrow> below n k \<Longrightarrow> below n (Tag nm cs kids)"

text \<open>The strings below a node, in document order, and what it is for a string to be
  another one trimmed: the same string without the white space at its two ends.\<close>

definition strings_below :: "node \<Rightarrow> str list" where
  "strings_below nd =
     concat (map (\<lambda>d. case d of NavigableString s \<Rightarrow> [s] | Tag nm cs kids \<Rightarrow> [] | Comment s \<Rightarrow> [])
       (descendants nd))"

definition trimmed :: "str \<Rightarrow> str \<Rightarrow> bool" where
  "trimmed s t \<longleftrightarrow>
     (\<exists>pre suf. s = pre @ t @ suf \<and> list_all isspace pre \<and> list_all isspace suf) \<and>
     (t = [] \<or> \<not> (isspace (hd t) \<or> isspace (last t)))"

text \<open>
  The lookup that the specification describes, among the direct children only
  (\<^verbatim>\<open>find(..., recursive=False)\<close>). It is the spec's reading, not the code's.
\<close>

definition find_direct_child :: "node \<Rightarrow> str \<Rightarrow> str \<Rightarrow> node option" where
  "find_direct_child nd nm cls =
     (case nd of
        Tag n cs kids \<Rightarrow> (case filter (matches nm cls) kids of [] \<Rightarrow> None | x # xs \<Rightarrow> Some x)
      | NavigableString s \<Rightarrow> None
      | Comment s \<Rightarrow> None)"

text \<open>
  The end-to-end scenario of the specification: one listing with all seven fields, one
  without price and energy mark; then a listing whose price sits two levels down, and a
  page without listings.
\<close>

definition text_div :: "string \<Rightarrow> str \<Rightarrow> node" where
  "text_div cls s = Tag div_tag [lit cls] [NavigableString s]"

definition example_full :: node where
  "example_full = Tag div_tag [listing_marker]
     [text_div ''property-type'' (lit ''Villa''),
      text_div ''rooms'' (lit ''4''),
      text_div ''size'' (lit ''120 m'' @ [178]),
      text_div ''price'' (lit '' 2.500.000 ''),
      text_div ''address'' (lit ''Main St 1''),
      text_div ''energy-mark'' (lit ''A''),
      text_div ''listing-date'' (lit ''2024-01-01'')]"

definition example_partial :: node where
  "example_partial = Tag div_tag [listing_marker]
     [text_div ''property-type'' (lit ''Villa''),
      text_div ''rooms'' (lit ''3''),
      text_div ''size'' (lit ''95 m'' @ [178]),
      text_div ''address'' (lit ''Main St 2''),
      text_div ''listing-date'' (lit ''2024-01-02'')]"

definition example_soup :: node where
  "example_soup = Tag (lit ''[document]'') []
     [Tag (lit ''html'') [] [Tag (lit ''body'') [] [example_full, NavigableString [10], example_partial]]]"

definition example_nested :: node where
  "example_nested = Tag div_tag [listing_marker]
     [Tag div_tag [lit ''details'']
        [Tag div_tag [lit ''price''] 
           [Tag (lit ''span'') [] [NavigableString (lit ''2.500.000'')], NavigableString (lit '' kr'')]]]"

text \<open>A listing with three prices: the first in document order lies two levels down and
  holds a second one; the third is a direct child.\<close>

definition example_prices :: node where
  "example_prices = Tag div_tag [listing_marker]
     [Tag div_tag [lit ''details'']
        [Tag div_tag [lit ''price'']
           [NavigableString (lit '' 1 ''), Tag div_tag [lit ''price''] [NavigableString (lit ''2'')]]],
      Tag div_tag [lit ''price''] [NavigableString (lit ''3'')]]"

definition example_no_listing :: node where
  "example_no_listing = Tag (lit ''[document]'') []
     [Tag (lit ''html'') [] [Tag (lit ''body'') []
        [Tag div_tag [lit ''banner''] [NavigableString (lit ''No results'')]]]]"

section \<open>URLs and the output folder\<close>

text \<open>
  \<^verbatim>\<open>urlparse(url).netloc\<close>, as \<^verbatim>\<open>urlsplit\<close> computes it: leading control characters and
  spaces are stripped, tabs and line breaks removed, a scheme is split off at the first
  colon when everything before it is a scheme, and the network location is what stands
  between a leading \<^verbatim>\<open>//\<close> and the next \<^verbatim>\<open>/\<close>, \<^verbatim>\<open>?\<close> or \<^verbatim>\<open>#\<close>; without \<^verbatim>\<open>//\<close> it is empty.
  Unbalanced brackets raise \<^verbatim>\<open>ValueError\<close>. The further checks of a bracketed host and of
  a non-ASCII location, which reject some non-empty locations, are outside the model.
\<close>

definition c0_control_or_space :: "nat \<Rightarrow> bool" where
  "c0_control_or_space c \<longleftrightarrow> c \<le> 32"

definition unsafe_url_byte :: "nat \<Rightarrow> bool" where
  "unsafe_url_byte c \<longleftrightarrow> c = 9 \<or> c = 13 \<or> c = 10"

definition ascii_alpha :: "nat \<Rightarrow> bool" where
  "ascii_alpha c \<longleftrightarrow> (65 \<le> c \<and> c \<le> 90) \<or> (97 \<le> c \<and> c \<le> 122)"

definition scheme_char :: "nat \<Rightarrow> bool" where
  "scheme_char c \<longleftrightarrow> ascii_alpha c \<or> (48 \<le> c \<and> c \<le> 57) \<or> c = 43 \<or> c = 45 \<or> c = 46"

definition after_scheme :: "str \<Rightarrow> str" where
  "after_scheme url =
     (let i = length (takeWhile (\<lambda>c. c \<noteq> 58) url) in
      if 58 \<in> set url \<and> 0 < i \<and> ascii_alpha (hd url) \<and> list_all scheme_char (take i url)
      then drop (i + 1) url
      else url)"

definition netloc_delimiter :: "nat \<Rightarrow> bool" where
  "netloc_delimiter c \<longleftrightarrow> c = 47 \<or> c = 63 \<or> c = 35"

definition urlparse_netloc :: "str \<Rightarrow> error + str" where
  "urlparse_netloc url0 =
     (let url = after_scheme (filter (\<lambda>c. \<not> unsafe_url_byte c) (dropWhile c0_control_or_space url0)) in
      if take 2 url = lit ''//'' then
        (let netloc = takeWhile (\<lambda>c. \<not> netloc_delimiter c) (drop 2 url) in
         if (91 \<in> set netloc \<and> 93 \<notin> set netloc) \<or> (93 \<in> set netloc \<and> 91 \<notin> set netloc)
         then Inl ValueError
         else Inr netloc)
      else Inr [])"

section \<open>The process state\<close>

text \<open>
  What a run changes: the directories and the files of the working directory, by path;
  the URLs handed to the crawler; the seconds spent waiting for it; the records that
  \<^verbatim>\<open>logger.error\<close> emits; and, for the script of test2.py, the requests sent, the
  seconds slept between them and the errors printed. A file is the sequence of bytes
  written to it. The log file, the records below the error level, permissions and the
  space on the disk are outside the model.
\<close>

type_synonym bytes = "nat list"

datatype log_event = ScrapingTimedOut | ScrapingError error | ScrapingFailed

record world =
  dirs :: "str set"
  files :: "str \<rightharpoonup> bytes"
  requests :: "str list"
  waited :: nat
  errors_logged :: "log_event list"
  sent :: nat
  slept :: "nat list"
  printed :: "error list"

text \<open>An action runs on the state and returns a value or raises, leaving the state it
  reached.\<close>

type_synonym 'a action = "world \<Rightarrow> (error + 'a) \<times> world"

definition bind_action :: "'a action \<Rightarrow> ('a \<Rightarrow> 'b action) \<Rightarrow> 'b action" where
  "bind_action m f w = (case m w of (Inl e, w') \<Rightarrow> (Inl e, w') | (Inr x, w') \<Rightarrow> f x w')"

definition return_action :: "'a \<Rightarrow> 'a action" where
  "return_action x w = (Inr x, w)"

definition logger_error :: "log_event \<Rightarrow> unit action" where
  "logger_error ev w = (Inr (), w\<lparr>errors_logged := errors_logged w @ [ev]\<rparr>)"

subsection \<open>UTF-8\<close>

text \<open>
  The code points that UTF-8 encodes are the Unicode scalar values: everything up to
  U+10FFFF but the surrogates U+D800 to U+DFFF, which a Python string may hold.
\<close>

definition scalar_value :: "nat \<Rightarrow> bool" where
  "scalar_value c \<longleftrightarrow> c < 55296 \<or> (57344 \<le> c \<and> c \<le> 1114111)"

definition utf8_char :: "nat \<Rightarrow> bytes" where
  "utf8_char c =
     (if c < 128 then [c]
      else if c < 2048 then [192 + c div 64, 128 + c mod 64]
      else if c < 65536 then [224 + c div 4096, 128 + c div 64 mod 64, 128 + c mod 64]
      else [240 + c div 262144, 128 + c div 4096 mod 64, 128 + c div 64 mod 64,
            128 + c mod 64])"

text \<open>\<^verbatim>\<open>s.encode('utf-8')\<close>, as a text file opened with \<^verbatim>\<open>encoding="utf-8"\<close> applies it to
  each string written: a surrogate raises.\<close>

definition encode_utf8 :: "str \<Rightarrow> error + bytes" where
  "encode_utf8 s =
     (if list_all scalar_value s then Inr (concat (map utf8_char s))
      else Inl UnicodeEncodeError)"

text \<open>\<^verbatim>\<open>os.fsencode\<close>: UTF-8 with the \<^verbatim>\<open>surrogateescape\<close> handler, under which U+DC80 to
  U+DCFF stand for the bytes 0x80 to 0xFF.\<close>

definition escaped_byte :: "nat \<Rightarrow> bool" where
  "escaped_byte c \<longleftrightarrow> 56448 \<le> c \<and> c \<le> 56575"

definition fs_bytes :: "str \<Rightarrow> bytes" where
  "fs_bytes name = concat (map (\<lambda>c. if escaped_byte c then [c - 56320] else utf8_char c) name)"

definition fsencode :: "str \<Rightarrow> error + bytes" where
  "fsencode name =
     (if list_all (\<lambda>c. scalar_value c \<or> escaped_byte c) name then Inr (fs_bytes name)
      else Inl UnicodeEncodeError)"

subsection \<open>Folders and files\<close>

text \<open>
  What Python and the operating system refuse in the name of an entry before they look
  at the directory: a name that \<^verbatim>\<open>os.fsencode\<close> cannot encode, a NUL, the empty name, and
  a name of more than \<^verbatim>\<open>NAME_MAX\<close> bytes.
\<close>

definition name_max :: nat where
  "name_max = 255"

definition entry_error :: "str \<Rightarrow> error option" where
  "entry_error name =
     (case fsencode name of
        Inl e \<Rightarrow> Some e
      | Inr encoded \<Rightarrow>
          if 0 \<in> set name then Some ValueError
          else if name = [] then Some FileNotFoundError
          else if name_max < length encoded then Some OSError
          else None)"

text \<open>\<^verbatim>\<open>os.mkdir\<close> of a name in the working directory: an existing entry is in the way.\<close>

definition mkdir :: "str \<Rightarrow> unit action" where
  "mkdir name w =
     (case entry_error name of
        Some e \<Rightarrow> (Inl e, w)
      | None \<Rightarrow>
          if name \<in> dirs w \<or> name \<in> dom (files w) then (Inl FileExistsError, w)
          else (Inr (), w\<lparr>dirs := insert name (dirs w)\<rparr>))"

text \<open>\<^verbatim>\<open>os.path.isdir\<close> is false where \<^verbatim>\<open>os.stat\<close> raises.\<close>

definition isdir :: "str \<Rightarrow> world \<Rightarrow> bool" where
  "isdir name w \<longleftrightarrow> entry_error name = None \<and> name \<in> dirs w"

definition is_oserror :: "error \<Rightarrow> bool" where
  "is_oserror e \<longleftrightarrow>
     e = OSError \<or> e = FileNotFoundError \<or> e = FileExistsError \<or> e = IsADirectoryError"

text \<open>
  \<^verbatim>\<open>os.makedirs(name, exist_ok=True)\<close> on a name without \<^verbatim>\<open>/\<close>: \<^verbatim>\<open>path.split\<close> gives an
  empty head, so no intermediate directory is made, and an \<^verbatim>\<open>OSError\<close> of \<^verbatim>\<open>mkdir\<close> is
  swallowed exactly when the name is a directory.
\<close>

definition makedirs :: "str \<Rightarrow> unit action" where
  "makedirs name w =
     (case mkdir name w of
        (Inr u, w') \<Rightarrow> (Inr u, w')
      | (Inl e, w') \<Rightarrow> if is_oserror e \<and> isdir name w' then (Inr (), w') else (Inl e, w'))"

text \<open>\<^verbatim>\<open>domain.split('.')[0]\<close>.\<close>

definition first_label :: "str \<Rightarrow> str" where
  "first_label domain = takeWhile (\<lambda>c. c \<noteq> 46) domain"

definition create_website_folder :: "str \<Rightarrow> str action" where
  "create_website_folder url w =
     (case urlparse_netloc url of
        Inl e \<Rightarrow> (Inl e, w)
      | Inr domain \<Rightarrow>
          (let folder_name = first_label domain in
           bind_action (makedirs folder_name) (\<lambda>u. return_action folder_name) w))"

text \<open>\<^verbatim>\<open>os.path.join\<close> with a relative second part, \<^verbatim>\<open>os.path.dirname\<close> and
  \<^verbatim>\<open>os.path.basename\<close>.\<close>

definition path_join :: "str \<Rightarrow> str \<Rightarrow> str" where
  "path_join a b = (if a = [] \<or> last a = 47 then a @ b else a @ [47] @ b)"

definition dirname :: "str \<Rightarrow> str" where
  "dirname p =
     (let head = rev (dropWhile (\<lambda>c. c \<noteq> 47) (rev p)) in
      if head \<noteq> [] \<and> \<not> list_all (\<lambda>c. c = 47) head
      then rev (dropWhile (\<lambda>c. c = 47) (rev head))
      else head)"

definition basename :: "str \<Rightarrow> str" where
  "basename p = rev (takeWhile (\<lambda>c. c \<noteq> 47) (rev p))"

text \<open>
  \<^verbatim>\<open>open(path, "w", encoding="utf-8")\<close>: the path must be one that Python and the
  operating system accept, its folder must exist and it must not be a directory; then
  the file is created or truncated.
\<close>

definition open_for_writing :: "str \<Rightarrow> unit action" where
  "open_for_writing path w =
     (case fsencode path of
        Inl e \<Rightarrow> (Inl e, w)
      | Inr encoded \<Rightarrow>
          if 0 \<in> set path then (Inl ValueError, w)
          else if path = [] then (Inl FileNotFoundError, w)
          else if dirname path \<noteq> [] \<and> dirname path \<notin> dirs w then (Inl FileNotFoundError, w)
          else if name_max < length (fs_bytes (basename path)) then (Inl OSError, w)
          else if basename path = [] \<or> path \<in> dirs w then (Inl IsADirectoryError, w)
          else (Inr (), w\<lparr>files := (files w)(path \<mapsto> [])\<rparr>))"

text \<open>
  \<^verbatim>\<open>f.write(chunk)\<close> for each chunk in turn: a chunk is encoded as a whole and appended.
  A chunk that cannot be encoded raises, and the file keeps what the chunks before it
  wrote.
\<close>

definition file_bytes :: "world \<Rightarrow> str \<Rightarrow> bytes" where
  "file_bytes w path = (case files w path of None \<Rightarrow> [] | Some written \<Rightarrow> written)"

fun write_chunks :: "str \<Rightarrow> str list \<Rightarrow> unit action" where
  "write_chunks path [] w = (Inr (), w)"
| "write_chunks path (chunk # chunks) w =
     (case encode_utf8 chunk of
        Inl e \<Rightarrow> (Inl e, w)
      | Inr encoded \<Rightarrow>
          write_chunks path chunks
            (w\<lparr>files := (files w)(path \<mapsto> file_bytes w path @ encoded)\<rparr>))"

definition write_file :: "str \<Rightarrow> str list \<Rightarrow> unit action" where
  "write_file path chunks = bind_action (open_for_writing path) (\<lambda>u. write_chunks path chunks)"

section \<open>JSON text\<close>

definition hexdigit :: "nat \<Rightarrow> nat" where
  "hexdigit d = (if d < 10 then 48 + d else 87 + d)"

text \<open>\<^verbatim>\<open>'\\u{0:04x}'.format(n)\<close> for \<open>n < 0x10000\<close>.\<close>

definition u_escape :: "nat \<Rightarrow> str" where
  "u_escape n = [92, 117, hexdigit (n div 4096 mod 16), hexdigit (n div 256 mod 16),
                 hexdigit (n div 16 mod 16), hexdigit (n mod 16)]"

text \<open>\<^verbatim>\<open>ESCAPE_DCT\<close>: the short escapes, and \<^verbatim>\<open>\u00XX\<close> for the other control characters.\<close>

definition escape_dct :: "nat \<Rightarrow> str option" where
  "escape_dct c =
     (if c = 92 then Some [92, 92]
      else if c = 34 then Some [92, 34]
      else if c = 8 then Some [92, 98]
      else if c = 12 then Some [92, 102]
      else if c = 10 then Some [92, 110]
      else if c = 13 then Some [92, 114]
      else if c = 9 then Some [92, 116]
      else if c < 32 then Some (u_escape c)
      else None)"

text \<open>\<^verbatim>\<open>py_encode_basestring\<close> (\<^verbatim>\<open>ensure_ascii=False\<close>) replaces what \<^verbatim>\<open>ESCAPE\<close> matches
  and nothing else.\<close>

definition escape_char :: "nat \<Rightarrow> str" where
  "escape_char c = (case escape_dct c of Some e \<Rightarrow> e | None \<Rightarrow> [c])"

text \<open>\<^verbatim>\<open>py_encode_basestring_ascii\<close> (\<^verbatim>\<open>ensure_ascii=True\<close>) also replaces everything
  outside \<^verbatim>\<open>' '..'~'\<close>, with a surrogate pair above the basic plane.\<close>

definition escape_char_ascii :: "nat \<Rightarrow> str" where
  "escape_char_ascii c =
     (case escape_dct c of
        Some e \<Rightarrow> e
      | None \<Rightarrow>
          if 32 \<le> c \<and> c \<le> 126 then [c]
          else if c < 65536 then u_escape c
          else (let n = c - 65536
                in u_escape (55296 + n div 1024 mod 1024) @ u_escape (56320 + n mod 1024)))"

definition encode_basestring :: "bool \<Rightarrow> str \<Rightarrow> str" where
  "encode_basestring ensure_ascii s =
     [34] @ concat (map (if ensure_ascii then escape_char_ascii else escape_char) s) @ [34]"

text \<open>
  \<^verbatim>\<open>_iterencode_list\<close> yields the text in chunks, which \<^verbatim>\<open>json.dump\<close> writes one by one and
  \<^verbatim>\<open>json.dumps\<close> joins. The separator is \<^verbatim>\<open>', '\<close> without an indent, and \<^verbatim>\<open>','\<close> followed
  by a new line indented to the level with one.
\<close>

definition newline_indent :: "nat option \<Rightarrow> nat \<Rightarrow> str" where
  "newline_indent indent level =
     (case indent of None \<Rightarrow> [] | Some k \<Rightarrow> 10 # replicate (k * level) 32)"

definition item_separator :: "nat option \<Rightarrow> str" where
  "item_separator indent = (case indent of None \<Rightarrow> [44, 32] | Some k \<Rightarrow> [44])"

text \<open>The end of a list: the new line at the outer level, if there is an indent, and the
  closing bracket.\<close>

definition closing_chunks :: "nat option \<Rightarrow> nat \<Rightarrow> str list" where
  "closing_chunks indent level =
     (case indent of None \<Rightarrow> [] | Some k \<Rightarrow> [newline_indent indent level]) @ [[93]]"

text \<open>The loop over a list of strings: each string is one chunk, behind \<^verbatim>\<open>buf\<close>, which is
  the opening of the list for the first item and the separator for the others.\<close>

fun string_chunks :: "bool \<Rightarrow> str \<Rightarrow> str \<Rightarrow> str list \<Rightarrow> str list" where
  "string_chunks ensure_ascii buf separator [] = []"
| "string_chunks ensure_ascii buf separator (v # vs) =
     (buf @ encode_basestring ensure_ascii v) # string_chunks ensure_ascii separator separator vs"

definition iterencode_row :: "bool \<Rightarrow> nat option \<Rightarrow> nat \<Rightarrow> str list \<Rightarrow> str list" where
  "iterencode_row ensure_ascii indent level row =
     (if row = [] then [[91, 93]]
      else string_chunks ensure_ascii ([91] @ newline_indent indent (level + 1))
             (item_separator indent @ newline_indent indent (level + 1)) row @
           closing_chunks indent level)"

text \<open>The loop over a list of lists: \<^verbatim>\<open>buf\<close> is a chunk of its own, and the chunks of the
  inner list follow.\<close>

fun row_chunks :: "bool \<Rightarrow> nat option \<Rightarrow> str \<Rightarrow> str \<Rightarrow> str list list \<Rightarrow> str list" where
  "row_chunks ensure_ascii indent buf separator [] = []"
| "row_chunks ensure_ascii indent buf separator (row # rows) =
     buf # iterencode_row ensure_ascii indent 1 row @
     row_chunks ensure_ascii indent separator separator rows"

text \<open>\<^verbatim>\<open>JSONEncoder(ensure_ascii=..., indent=...).iterencode(data)\<close> for a list of lists of
  strings.\<close>

definition iterencode :: "bool \<Rightarrow> nat option \<Rightarrow> str list list \<Rightarrow> str list" where
  "iterencode ensure_ascii indent data =
     (if data = [] then [[91, 93]]
      else row_chunks ensure_ascii indent ([91] @ newline_indent indent 1)
             (item_separator indent @ newline_indent indent 1) data @
           closing_chunks indent 0)"

definition json_dumps :: "bool \<Rightarrow> nat option \<Rightarrow> str list list \<Rightarrow> str" where
  "json_dumps ensure_ascii indent data = concat (iterencode ensure_ascii indent data)"

text \<open>The text in closed form: the encoded items joined by the separator, between the
  brackets.\<close>

fun join :: "str \<Rightarrow> str list \<Rightarrow> str" where
  "join sep [] = []"
| "join sep [x] = x"
| "join sep (x # y # ys) = x @ sep @ join sep (y # ys)"

definition bracketed :: "nat option \<Rightarrow> nat \<Rightarrow> str list \<Rightarrow> str" where
  "bracketed indent level items =
     (if items = [] then [91, 93]
      else [91] @ newline_indent indent (level + 1) @
           join (item_separator indent @ newline_indent indent (level + 1)) items @
           newline_indent indent level @ [93])"

section \<open>The pipeline of main.py\<close>

subsection \<open>The rendering fetch\<close>

text \<open>
  What \<^verbatim>\<open>crawler.arun\<close> does for a URL is given from outside: it returns a result after
  some seconds, raises after some seconds, or never completes. A result carries the tree
  that \<^verbatim>\<open>BeautifulSoup(result.html, 'html.parser')\<close> builds and
  \<^verbatim>\<open>result.extracted_content\<close>, which may be \<^verbatim>\<open>None\<close>. A result without HTML is
  outside the model.
\<close>

record crawl_result =
  html :: node
  extracted_content :: "str option"

datatype crawl = Completes nat crawl_result | Raises nat | Never

text \<open>\<^verbatim>\<open>asyncio.wait_for(aw, timeout)\<close>: the outcome of the awaitable if it comes before the
  timeout, \<^verbatim>\<open>TimeoutError\<close> at the timeout otherwise.\<close>

definition wait_for :: "crawl \<Rightarrow> nat \<Rightarrow> crawl_result action" where
  "wait_for aw timeout w =
     (case aw of
        Completes t r \<Rightarrow>
          if t < timeout then (Inr r, w\<lparr>waited := waited w + t\<rparr>)
          else (Inl TimeoutError, w\<lparr>waited := waited w + timeout\<rparr>)
      | Raises t \<Rightarrow>
          if t < timeout then (Inl CrawlerError, w\<lparr>waited := waited w + t\<rparr>)
          else (Inl TimeoutError, w\<lparr>waited := waited w + timeout\<rparr>)
      | Never \<Rightarrow> (Inl TimeoutError, w\<lparr>waited := waited w + timeout\<rparr>))"

definition arun :: "(str \<Rightarrow> crawl) \<Rightarrow> str \<Rightarrow> nat \<Rightarrow> crawl_result action" where
  "arun crawler url timeout w = wait_for (crawler url) timeout (w\<lparr>requests := requests w @ [url]\<rparr>)"

subsection \<open>scrape_website\<close>

definition property_data_json :: str where
  "property_data_json = lit ''property_data.json''"

text \<open>
  The function returns \<^verbatim>\<open>(None, None)\<close> from its two handlers and
  \<^verbatim>\<open>(data, result.extracted_content)\<close> at its end. The folder is created before the
  \<^verbatim>\<open>try\<close>, so an error there is not handled here; neither are errors of the
  extraction and of the write. \<^verbatim>\<open>json.dump(data, f, ensure_ascii=False, indent=2)\<close> writes
  the chunks of the encoder to the file one by one.
\<close>

definition scrape_website ::
    "(str \<Rightarrow> crawl) \<Rightarrow> str \<Rightarrow> (str list list option \<times> str option) action" where
  "scrape_website crawler url =
     bind_action (create_website_folder url) (\<lambda>folder_name w.
       case arun crawler url 300 w of
         (Inl e, w') \<Rightarrow>
           if e = TimeoutError
           then bind_action (logger_error ScrapingTimedOut) (\<lambda>u. return_action (None, None)) w'
           else bind_action (logger_error (ScrapingError e)) (\<lambda>u. return_action (None, None)) w'
       | (Inr result, w') \<Rightarrow>
           (case extract_listings (html result) of
              Inl e \<Rightarrow> (Inl e, w')
            | Inr data \<Rightarrow>
                bind_action
                  (write_file (path_join folder_name property_data_json)
                     (iterencode False (Some 2) data))
                  (\<lambda>u. return_action (Some data, extracted_content result)) w'))"

subsection \<open>The summarizer\<close>

text \<open>The completion API is given from outside: from the system and the user message to
  the text of the first choice, or an error.\<close>

definition generate_completion ::
    "(str \<Rightarrow> str \<Rightarrow> error + str) \<Rightarrow> str \<Rightarrow> str \<Rightarrow> str \<Rightarrow> error + str" where
  "generate_completion client role task content =
     client (lit ''You are a '' @ role @ lit ''. '' @ task) content"

definition analyze_property_data ::
    "(str \<Rightarrow> str \<Rightarrow> error + str) \<Rightarrow> str list list \<Rightarrow> error + str" where
  "analyze_property_data client data =
     generate_completion client (lit ''real estate analyst'')
       (lit ''Analyze the following property data and provide key insights for potential buyers or investors.'')
       (json_dumps True None data)"

subsection \<open>UserInterfaceAgent.run\<close>

definition property_analysis_md :: str where
  "property_analysis_md = lit ''property_analysis.md''"

definition property_report_md :: str where
  "property_report_md = lit ''property-report.md''"

definition property_report :: "str list list \<Rightarrow> str \<Rightarrow> str" where
  "property_report property_data analysis =
     lit ''# Comprehensive Property Report'' @ [10, 10] @
     lit ''## Extracted Property Data'' @ [10] @
     json_dumps True (Some 2) property_data @ [10, 10] @
     lit ''## Property Analysis'' @ [10] @
     analysis @ [10]"

text \<open>
  The run, from the URL that the user entered. Nothing in \<^verbatim>\<open>run\<close> or \<^verbatim>\<open>main\<close> handles
  an exception: an error of an action here ends the process, in the state reached.
\<close>

definition run :: "(str \<Rightarrow> crawl) \<Rightarrow> (str \<Rightarrow> str \<Rightarrow> error + str) \<Rightarrow> str \<Rightarrow> unit action" where
  "run crawler client url =
     bind_action (scrape_website crawler url) (\<lambda>(property_data, extracted_content).
       case (property_data, extracted_content) of
         (Some data, Some content) \<Rightarrow>
           bind_action (create_website_folder url) (\<lambda>folder_name w.
             case analyze_property_data client data of
               Inl e \<Rightarrow> (Inl e, w)
             | Inr analysis \<Rightarrow>
                 bind_action (write_file (path_join folder_name property_analysis_md) [analysis]) (\<lambda>u.
                 write_file (path_join folder_name property_report_md)
                   [property_report data analysis]) w)
       | _ \<Rightarrow> logger_error ScrapingFailed)"

definition boliga_url :: str where
  "boliga_url = lit ''https://www.boliga.dk/nye-boliger''"

definition empty_world :: world where
  "empty_world = \<lparr>dirs = {}, files = Map.empty, requests = [], waited = 0, errors_logged = [],
     sent = 0, slept = [], printed = []\<rparr>"

definition example_crawl :: crawl where
  "example_crawl = Completes 12 \<lparr>html = example_soup, extracted_content = Some (lit ''[]'')\<rparr>"

text \<open>Crawlers and completion clients for the examples, and the state a first run leaves.\<close>

definition never_crawler :: "str \<Rightarrow> crawl" where
  "never_crawler url = Never"

definition example_crawler :: "str \<Rightarrow> crawl" where
  "example_crawler url = example_crawl"

definition ok_client :: "str \<Rightarrow> str \<Rightarrow> error + str" where
  "ok_client system_message user_message = Inr (lit ''Prices are stable.'')"

definition failing_client :: "str \<Rightarrow> str \<Rightarrow> error + str" where
  "failing_client system_message user_message = Inl APIError"

definition example_rows :: "str list list" where
  "example_rows =
     [[lit ''Villa'', lit ''4'', lit ''120 m'' @ [178], lit ''2.500.000'', lit ''Main St 1'',
       lit ''A'', lit ''2024-01-01''],
      [lit ''Villa'', lit ''3'', lit ''95 m'' @ [178], NA, lit ''Main St 2'', NA,
       lit ''2024-01-02'']]"

definition stale_world :: world where
  "stale_world = empty_world\<lparr>dirs := {lit ''www''},
     files := [lit ''www/property_data.json'' \<mapsto> lit ''[]'']\<rparr>"

text \<open>A page whose one listing has a lone surrogate as its price, and a URL whose first
  domain label has 256 letters.\<close>

definition surrogate_soup :: node where
  "surrogate_soup = Tag (lit ''[document]'') []
     [Tag div_tag [listing_marker]
        [text_div ''property-type'' (lit ''Villa''),
         text_div ''price'' [55296]]]"

definition surrogate_crawler :: "str \<Rightarrow> crawl" where
  "surrogate_crawler url =
     Completes 12 \<lparr>html = surrogate_soup, extracted_content = Some (lit ''[]'')\<rparr>"

definition long_label :: str where
  "long_label = replicate 256 97"

definition long_url :: str where
  "long_url = lit ''https://'' @ long_label @ lit ''.dk/nye-boliger''"

section \<open>Reading the data file back\<close>

text \<open>
  Modelled from the spec: the repository writes the data file and never reads it, so the
  reader of the round-trip property is missing from the source. It is modelled after the
  decoder of Python's \<^verbatim>\<open>json\<close> module (\<^verbatim>\<open>json.load\<close>), on the fragment that the writer
  emits: arrays and strings. Any other value is a decode error here.
\<close>

definition json_whitespace :: "nat \<Rightarrow> bool" where
  "json_whitespace c \<longleftrightarrow> c = 32 \<or> c = 9 \<or> c = 10 \<or> c = 13"

definition skip_whitespace :: "str \<Rightarrow> str" where
  "skip_whitespace s = dropWhile json_whitespace s"

definition hexval :: "nat \<Rightarrow> nat option" where
  "hexval c =
     (if 48 \<le> c \<and> c \<le> 57 then Some (c - 48)
      else if 97 \<le> c \<and> c \<le> 102 then Some (c - 87)
      else if 65 \<le> c \<and> c \<le> 70 then Some (c - 55)
      else None)"

definition decode_uXXXX :: "str \<Rightarrow> (nat \<times> str) option" where
  "decode_uXXXX s =
     (if length s < 4 then None
      else
        (case hexval (s ! 0) of None \<Rightarrow> None | Some a \<Rightarrow>
        (case hexval (s ! 1) of None \<Rightarrow> None | Some b \<Rightarrow>
        (case hexval (s ! 2) of None \<Rightarrow> None | Some c \<Rightarrow>
        (case hexval (s ! 3) of None \<Rightarrow> None | Some d \<Rightarrow>
           Some (a * 4096 + b * 256 + c * 16 + d, drop 4 s))))))"

definition backslash :: "nat \<Rightarrow> nat option" where
  "backslash e =
     (if e = 34 then Some 34
      else if e = 92 then Some 92
      else if e = 47 then Some 47
      else if e = 98 then Some 8
      else if e = 102 then Some 12
      else if e = 110 then Some 10
      else if e = 114 then Some 13
      else if e = 116 then Some 9
      else None)"

text \<open>Modelled from the spec: \<^verbatim>\<open>py_scanstring\<close> in strict mode, from behind the opening quote
  to the closing one, with the escapes of \<^verbatim>\<open>BACKSLASH\<close> and surrogate pairs joined.\<close>

definition prepend :: "'a \<Rightarrow> error + ('a list \<times> str) \<Rightarrow> error + ('a list \<times> str)" where
  "prepend x r = (case r of Inl e \<Rightarrow> Inl e | Inr (xs, rest) \<Rightarrow> Inr (x # xs, rest))"

lemma decode_uXXXX_length: "decode_uXXXX s = Some (n, rest) \<Longrightarrow> length rest \<le> length s"
  by (auto simp: decode_uXXXX_def split: if_splits option.splits)

function scanstring :: "str \<Rightarrow> error + (str \<times> str)" where
  "scanstring [] = Inl JSONDecodeError"
| "scanstring (c # cs) =
     (if c = 34 then Inr ([], cs)
      else if c = 92 then
        (case cs of
           [] \<Rightarrow> Inl JSONDecodeError
         | e # cs' \<Rightarrow>
             if e = 117 then
               (case decode_uXXXX cs' of
                  None \<Rightarrow> Inl JSONDecodeError
                | Some (uni, rest) \<Rightarrow>
                    if 55296 \<le> uni \<and> uni \<le> 56319 \<and> take 2 rest = [92, 117] then
                      (case decode_uXXXX (drop 2 rest) of
                         None \<Rightarrow> Inl JSONDecodeError
                       | Some (uni2, rest2) \<Rightarrow>
                           if 56320 \<le> uni2 \<and> uni2 \<le> 57343
                           then prepend (65536 + (uni - 55296) * 1024 + (uni2 - 56320))
                                  (scanstring rest2)
                           else prepend uni (scanstring rest))
                    else prepend uni (scanstring rest))
             else
               (case backslash e of
                  None \<Rightarrow> Inl JSONDecodeError
                | Some ch \<Rightarrow> prepend ch (scanstring cs')))
      else if c < 32 then Inl JSONDecodeError
      else prepend c (scanstring cs))"
  by pat_completeness auto
termination
proof (relation "measure length")
  show "wf (measure length)" by simp
qed (auto dest!: decode_uXXXX_length)

definition scan_string :: "str \<Rightarrow> error + (str \<times> str)" where
  "scan_string s = (case s of [] \<Rightarrow> Inl JSONDecodeError
                    | c # cs \<Rightarrow> if c = 34 then scanstring cs else Inl JSONDecodeError)"

text \<open>
  Modelled from the spec: the loop of \<^verbatim>\<open>JSONArray\<close>, one value, then \<^verbatim>\<open>]\<close> or \<^verbatim>\<open>,\<close>. A scanner
  that returns has consumed input; the length test makes the recursion well-founded for
  any scanner.
\<close>

function array_items :: "(str \<Rightarrow> error + ('a \<times> str)) \<Rightarrow> str \<Rightarrow> error + ('a list \<times> str)" where
  "array_items scan_once s =
     (case scan_once s of
        Inl e \<Rightarrow> Inl e
      | Inr (v, rest) \<Rightarrow>
          if length s \<le> length rest then Inl JSONDecodeError
          else
            (case skip_whitespace rest of
               [] \<Rightarrow> Inl JSONDecodeError
             | c # rest' \<Rightarrow>
                 if c = 93 then Inr ([v], rest')
                 else if c = 44 then prepend v (array_items scan_once (skip_whitespace rest'))
                 else Inl JSONDecodeError))"
  by pat_completeness auto
termination
proof (relation "measure (\<lambda>(scan_once, s). length s)")
  show "wf (measure (\<lambda>(scan_once, s). length s))" by simp
next
  fix scan_once :: "str \<Rightarrow> error + ('a \<times> str)" and s :: str and x2 v rest c rest'
  assume shorter: "\<not> length s \<le> length rest" and next_char: "skip_whitespace rest = c # rest'"
  have le: "length (skip_whitespace t) \<le> length t" for t
    by (simp add: skip_whitespace_def length_dropWhile_le)
  from next_char have "length (skip_whitespace rest) = Suc (length rest')"
    by simp
  with le [of rest] le [of rest'] shorter have "length (skip_whitespace rest') < length s"
    by linarith
  then show "((scan_once, skip_whitespace rest'), scan_once, s) \<in> measure (\<lambda>(scan_once, s). length s)"
    by simp
qed

definition json_array :: "(str \<Rightarrow> error + ('a \<times> str)) \<Rightarrow> str \<Rightarrow> error + ('a list \<times> str)" where
  "json_array scan_once s =
     (case s of
        [] \<Rightarrow> Inl JSONDecodeError
      | c # cs \<Rightarrow>
          if c = 91 then
            (case skip_whitespace cs of
               [] \<Rightarrow> Inl JSONDecodeError
             | n # rest \<Rightarrow> if n = 93 then Inr ([], rest) else array_items scan_once (n # rest))
          else Inl JSONDecodeError)"

text \<open>Modelled from the spec: \<^verbatim>\<open>json.loads\<close> for a list of lists of strings; text after the
  value is an error.\<close>

definition json_loads :: "str \<Rightarrow> error + str list list" where
  "json_loads s =
     (case json_array (json_array scan_string) (skip_whitespace s) of
        Inl e \<Rightarrow> Inl e
      | Inr (obj, rest) \<Rightarrow> if skip_whitespace rest = [] then Inr obj else Inl JSONDecodeError)"

declare array_items.simps [simp del]

text \<open>
  Modelled from the spec: the strict UTF-8 decoder with which a text file is read. A lead
  byte announces one to three continuation bytes; the code point must need that many, and
  must be a scalar value.
\<close>

definition continuation :: "nat \<Rightarrow> bool" where
  "continuation b \<longleftrightarrow> 128 \<le> b \<and> b < 192"

definition decoded :: "nat \<Rightarrow> error + str \<Rightarrow> error + str" where
  "decoded c r = (case r of Inl e \<Rightarrow> Inl e | Inr s \<Rightarrow> Inr (c # s))"

fun decode_utf8 :: "bytes \<Rightarrow> error + str" where
  "decode_utf8 [] = Inr []"
| "decode_utf8 (b # bs) =
     (if b < 128 then decoded b (decode_utf8 bs)
      else if 192 \<le> b \<and> b < 224 then
        (case bs of
           b1 # rest \<Rightarrow>
             (let c = (b - 192) * 64 + (b1 - 128)
              in if continuation b1 \<and> 128 \<le> c then decoded c (decode_utf8 rest)
                 else Inl UnicodeDecodeError)
         | _ \<Rightarrow> Inl UnicodeDecodeError)
      else if 224 \<le> b \<and> b < 240 then
        (case bs of
           b1 # b2 # rest \<Rightarrow>
             (let c = (b - 224) * 4096 + (b1 - 128) * 64 + (b2 - 128)
              in if continuation b1 \<and> continuation b2 \<and> 2048 \<le> c \<and> scalar_value c
                 then decoded c (decode_utf8 rest)
                 else Inl UnicodeDecodeError)
         | _ \<Rightarrow> Inl UnicodeDecodeError)
      else if 240 \<le> b \<and> b < 248 then
        (case bs of
           b1 # b2 # b3 # rest \<Rightarrow>
             (let c = (b - 240) * 262144 + (b1 - 128) * 4096 + (b2 - 128) * 64 + (b3 - 128)
              in if continuation b1 \<and> continuation b2 \<and> continuation b3 \<and>
                    65536 \<le> c \<and> scalar_value c
                 then decoded c (decode_utf8 rest)
                 else Inl UnicodeDecodeError)
         | _ \<Rightarrow> Inl UnicodeDecodeError)
      else Inl UnicodeDecodeError)"

text \<open>Modelled from the spec: reading a file of the working directory back,
  \<^verbatim>\<open>json.load(open(path, encoding="utf-8"))\<close>.\<close>

definition read_data_file :: "str \<Rightarrow> world \<Rightarrow> error + str list list" where
  "read_data_file path w =
     (case files w path of
        None \<Rightarrow> Inl FileNotFoundError
      | Some written \<Rightarrow>
          (case decode_utf8 written of Inl e \<Rightarrow> Inl e | Inr content \<Rightarrow> json_loads content))"

text \<open>What the array reader needs of an encoder and its scanner: the scanner reads back
  what the encoder wrote, and the encoded text begins with neither white space nor a
  closing bracket.\<close>

definition scans :: "(str \<Rightarrow> error + ('a \<times> str)) \<Rightarrow> ('a \<Rightarrow> str) \<Rightarrow> 'a \<Rightarrow> bool" where
  "scans scan_once enc x \<longleftrightarrow>
     (\<forall>rest. scan_once (enc x @ rest) = Inr (x, rest)) \<and>
     (\<exists>c cs. enc x = c # cs \<and> \<not> json_whitespace c \<and> c \<noteq> 93)"

section \<open>The plain HTTP fetch of test2.py\<close>

text \<open>
  \<^verbatim>\<open>web_scraper\<close> mounts an \<^verbatim>\<open>HTTPAdapter\<close> whose \<^verbatim>\<open>max_retries\<close> is a urllib3 \<^verbatim>\<open>Retry\<close>.
  Of the counters of \<^verbatim>\<open>Retry\<close> only \<^verbatim>\<open>total\<close> is set; its history is kept as the list of
  the statuses retried so far. The other settings keep their defaults:
  \<^verbatim>\<open>respect_retry_after_header\<close> and \<^verbatim>\<open>raise_on_status\<close> are true. The retry loop is
  that of urllib3 1.26.
\<close>

record retry =
  total :: int
  status_forcelist :: "nat list"
  allowed_methods :: "str list"
  backoff_factor :: nat
  history :: "nat list"

definition retry_strategy :: retry where
  "retry_strategy = \<lparr>total = 5, status_forcelist = [429, 500, 502, 503, 504],
     allowed_methods = [lit ''HEAD'', lit ''GET'', lit ''OPTIONS''], backoff_factor = 1,
     history = []\<rparr>"

text \<open>
  The site is given from outside: its answer to the k-th request for a URL. An answer
  carries the status, the seconds of a \<^verbatim>\<open>Retry-After\<close> header if there is one, and the tree
  that \<^verbatim>\<open>BeautifulSoup(response.content, 'html.parser')\<close> builds. The site always answers:
  connection errors, timeouts and redirects are outside the model.
\<close>

record response =
  status_code :: nat
  retry_after :: "nat option"
  content :: node

text \<open>What the fetch does besides returning is kept in the state: the requests sent, the
  seconds slept between them, and the errors that \<^verbatim>\<open>web_scraper\<close> prints.\<close>

subsection \<open>urllib3's Retry\<close>

text \<open>\<^verbatim>\<open>str.upper\<close> on ASCII text, which is what a request method is; the case mapping of
  other characters is outside the model.\<close>

definition upper :: "str \<Rightarrow> str" where
  "upper s = map (\<lambda>c. if 97 \<le> c \<and> c \<le> 122 then c - 32 else c) s"

definition is_method_retryable :: "retry \<Rightarrow> str \<Rightarrow> bool" where
  "is_method_retryable r method \<longleftrightarrow>
     \<not> (allowed_methods r \<noteq> [] \<and> upper method \<notin> set (allowed_methods r))"

definition retry_after_status_codes :: "nat list" where
  "retry_after_status_codes = [413, 429, 503]"

definition is_retry :: "retry \<Rightarrow> str \<Rightarrow> nat \<Rightarrow> bool \<Rightarrow> bool" where
  "is_retry r method status has_retry_after \<longleftrightarrow>
     (if \<not> is_method_retryable r method then False
      else if status_forcelist r \<noteq> [] \<and> status \<in> set (status_forcelist r) then True
      else total r \<noteq> 0 \<and> has_retry_after \<and> status \<in> set retry_after_status_codes)"

text \<open>\<^verbatim>\<open>is_exhausted\<close>: the least of the counters that are set and not zero is negative.\<close>

definition is_exhausted :: "retry \<Rightarrow> bool" where
  "is_exhausted r \<longleftrightarrow> total r < 0"

definition increment :: "retry \<Rightarrow> nat \<Rightarrow> error + retry" where
  "increment r status =
     (let new_retry = r\<lparr>total := total r - 1, history := history r @ [status]\<rparr>
      in if is_exhausted new_retry then Inl MaxRetryError else Inr new_retry)"

definition backoff_max :: nat where
  "backoff_max = 120"

text \<open>
  \<^verbatim>\<open>get_backoff_time\<close>: nothing after the first error, then
  \<^verbatim>\<open>backoff_factor * (2 ** (consecutive_errors_len - 1))\<close>, capped.
\<close>

definition get_backoff_time :: "retry \<Rightarrow> nat" where
  "get_backoff_time r =
     (let consecutive_errors_len = length (history r)
      in if consecutive_errors_len \<le> 1 then 0
         else min backoff_max (backoff_factor r * 2 ^ (consecutive_errors_len - 1)))"

text \<open>\<^verbatim>\<open>Retry.sleep\<close>: the seconds of a \<^verbatim>\<open>Retry-After\<close> header when it has some, the backoff
  otherwise. A backoff of zero is recorded as a sleep of zero seconds.\<close>

definition sleep_seconds :: "retry \<Rightarrow> response \<Rightarrow> nat" where
  "sleep_seconds r resp =
     (case retry_after resp of
        Some seconds \<Rightarrow> if seconds \<noteq> 0 then seconds else get_backoff_time r
      | None \<Rightarrow> get_backoff_time r)"

lemma increment_total: "increment r status = Inr r' \<Longrightarrow> 0 \<le> total r' \<and> total r' = total r - 1"
  by (auto simp: increment_def is_exhausted_def Let_def split: if_splits)

text \<open>
  The retry loop of \<^verbatim>\<open>HTTPConnectionPool.urlopen\<close>: a response that \<^verbatim>\<open>is_retry\<close> accepts
  is counted, slept after and requested again, until the counter is exhausted and
  \<^verbatim>\<open>MaxRetryError\<close> is raised.
\<close>

function urlopen :: "(nat \<Rightarrow> response) \<Rightarrow> str \<Rightarrow> retry \<Rightarrow> response action" where
  "urlopen server method retries w =
     (let resp = server (sent w); t1 = w\<lparr>sent := sent w + 1\<rparr> in
      if is_retry retries method (status_code resp) (retry_after resp \<noteq> None) then
        (case increment retries (status_code resp) of
           Inl e \<Rightarrow> (Inl e, t1)
         | Inr retries' \<Rightarrow>
             urlopen server method retries'
               (t1\<lparr>slept := slept t1 @ [sleep_seconds retries' resp]\<rparr>))
      else (Inr resp, t1))"
  by pat_completeness auto
termination
proof (relation "measure (\<lambda>(server, method, retries, w). nat (total retries + 1))")
  show "wf (measure (\<lambda>(server, method, retries, w). nat (total retries + 1)))"
    by simp
qed (auto dest: increment_total)

declare urlopen.simps [simp del]

subsection \<open>web_scraper\<close>

text \<open>\<^verbatim>\<open>http.get(url, headers=headers, timeout=10)\<close>: the adapter turns the
  \<^verbatim>\<open>MaxRetryError\<close> of a response into \<^verbatim>\<open>requests.exceptions.RetryError\<close>.\<close>

definition session_get :: "(nat \<Rightarrow> response) \<Rightarrow> response action" where
  "session_get server w =
     (case urlopen server (lit ''GET'') retry_strategy w of
        (Inl e, t') \<Rightarrow> (Inl (if e = MaxRetryError then RetryError else e), t')
      | (Inr resp, t') \<Rightarrow> (Inr resp, t'))"

definition raise_for_status :: "response \<Rightarrow> error + unit" where
  "raise_for_status resp =
     (if 400 \<le> status_code resp \<and> status_code resp < 600 then Inl (HTTPError (status_code resp))
      else Inr ())"

text \<open>The body of the \<^verbatim>\<open>try\<close> block.\<close>

definition fetch :: "(str \<Rightarrow> nat \<Rightarrow> response) \<Rightarrow> str \<Rightarrow> response action" where
  "fetch site url w =
     (case session_get (site url) w of
        (Inl e, t') \<Rightarrow> (Inl e, t')
      | (Inr resp, t') \<Rightarrow>
          (case raise_for_status resp of Inl e \<Rightarrow> (Inl e, t') | Inr u \<Rightarrow> (Inr resp, t')))"

record data_frame =
  columns :: "str list"
  frame_rows :: "str list list"

text \<open>The handler prints the error and returns \<^verbatim>\<open>pd.DataFrame()\<close>; the extraction is the
  loop of \<^verbatim>\<open>scrape_website\<close>, word for word.\<close>

definition web_scraper :: "(str \<Rightarrow> nat \<Rightarrow> response) \<Rightarrow> str \<Rightarrow> data_frame action" where
  "web_scraper site url w =
     (case fetch site url w of
        (Inl e, t') \<Rightarrow> (Inr \<lparr>columns = [], frame_rows = []\<rparr>, t'\<lparr>printed := printed t' @ [e]\<rparr>)
      | (Inr resp, t') \<Rightarrow>
          (case extract_listings (content resp) of
             Inl e \<Rightarrow> (Inl e, t')
           | Inr data \<Rightarrow>
               (Inr \<lparr>columns = [lit ''Property Type'', lit ''Rooms'', lit ''Size'', lit ''Price'',
                        lit ''Address'', lit ''Energy Mark'', lit ''Listing Date''],
                     frame_rows = data\<rparr>, t')))"

subsection \<open>Example sites\<close>

text \<open>A site that always answers 503, one that always answers 404, and one that answers
  500 twice and then 404; none sends a \<^verbatim>\<open>Retry-After\<close> header.\<close>

definition always_503 :: "str \<Rightarrow> nat \<Rightarrow> response" where
  "always_503 url k = \<lparr>status_code = 503, retry_after = None, content = example_no_listing\<rparr>"

definition always_404 :: "str \<Rightarrow> nat \<Rightarrow> response" where
  "always_404 url k = \<lparr>status_code = 404, retry_after = None, content = example_no_listing\<rparr>"

definition late_404 :: "str \<Rightarrow> nat \<Rightarrow> response" where
  "late_404 url k =
     \<lparr>status_code = (if k < 2 then 500 else 404), retry_after = None,
      content = example_no_listing\<rparr>"

section \<open>Properties of the extractor\<close>

lemma scrape_field_value: "scrape_field item cls = Inr (field_value item cls)"
  by (cases "find_tag item div_tag cls")
     (simp_all add: scrape_field_def field_value_def get_text_of_def)




lemma descendants_below: "n \<in> set (descendants p) \<longleftrightarrow> below n p"
proof
  show "n \<in> set (descendants p) \<Longrightarrow> below n p"
  proof (induction p)
    case (Tag nm cs kids)
    from Tag.prems obtain k where k: "k \<in> set kids" and "n = k \<or> n \<in> set (descendants k)"
      by auto
    then show ?case
      using Tag.IH [OF k] by (auto intro: below.intros)
  qed simp_all
next
  show "below n p \<Longrightarrow> n \<in> set (descendants p)"
    by (induction rule: below.induct) auto
qed

lemmas example_defs = example_soup_def example_full_def example_partial_def text_div_def
  div_tag_def listing_marker_def lit_def sub_markers_def NA_def

lemmas nested_defs = example_nested_def div_tag_def listing_marker_def lit_def NA_def

lemma find_tag_find: "find_tag nd nm cls = find (matches nm cls) (descendants nd)"
proof -
  have "(case filter P xs of [] \<Rightarrow> None | x # ys \<Rightarrow> Some x) = find P xs" for P :: "node \<Rightarrow> bool" and xs
    by (induction xs) simp_all
  then show ?thesis
    by (simp add: find_tag_def find_all_def)
qed

lemma get_text_strings: "get_text nd = concat (map strip (strings_below nd))"
proof -
  have one: "concat (stripped_strings d) =
      concat (map strip (case d of NavigableString s \<Rightarrow> [s] | Tag nm cs kids \<Rightarrow> [] | Comment s \<Rightarrow> []))"
    for d
    by (cases d) simp_all
  have "concat (concat (map stripped_strings ds)) =
      concat (map strip (concat (map (\<lambda>d. case d of NavigableString s \<Rightarrow> [s] | Tag nm cs kids \<Rightarrow> []
        | Comment s \<Rightarrow> []) ds)))" for ds
    by (induction ds) (simp_all add: one)
  then show ?thesis
    by (simp add: get_text_def strings_below_def)
qed

lemma trimmed_strip: "trimmed s (strip s)"
proof -
  define rest where "rest = dropWhile isspace s"
  define core where "core = dropWhile isspace (rev rest)"
  define pre where "pre = takeWhile isspace s"
  define suf where "suf = rev (takeWhile isspace (rev rest))"
  have t: "strip s = rev core"
    unfolding strip_def rest_def core_def by (rule refl)
  have s: "s = pre @ rest"
    unfolding pre_def rest_def by (simp only: takeWhile_dropWhile_id)
  have "rev rest = takeWhile isspace (rev rest) @ core"
    unfolding core_def by (simp only: takeWhile_dropWhile_id)
  then have "rev (rev rest) = rev (takeWhile isspace (rev rest) @ core)"
    by (rule arg_cong)
  then have rest: "rest = rev core @ suf"
    unfolding suf_def by (simp only: rev_rev_ident rev_append)
  have pre: "list_all isspace pre"
    unfolding pre_def by (auto simp: list_all_iff dest: set_takeWhileD)
  have suf: "list_all isspace suf"
    unfolding suf_def by (auto simp: list_all_iff dest: set_takeWhileD)
  have ends: "\<not> (isspace (hd (rev core)) \<or> isspace (last (rev core)))" if "rev core \<noteq> []"
  proof -
    from that have b: "core \<noteq> []"
      by (simp only: rev_is_Nil_conv not_False_eq_True)
    then have "\<not> isspace (hd core)"
      unfolding core_def by (rule hd_dropWhile)
    then have l: "\<not> isspace (last (rev core))"
      using b by (simp add: last_rev)
    have "hd (rev core @ suf) = hd (rev core)"
      using that by (rule hd_append2)
    then have h: "hd rest = hd (rev core)"
      by (simp only: rest [symmetric] simp_thms)
    have "rev core @ suf \<noteq> []"
      using that by (simp only: append_is_Nil_conv simp_thms)
    then have "rest \<noteq> []"
      by (simp only: rest [symmetric] simp_thms)
    then have "\<not> isspace (hd rest)"
      unfolding rest_def by (rule hd_dropWhile)
    then have "\<not> isspace (hd (rev core))"
      by (simp only: h simp_thms)
    with l show ?thesis
      by (simp only: simp_thms)
  qed
  have whole: "s = pre @ rev core @ suf"
    by (rule trans [OF s]) (simp only: rest [symmetric] simp_thms)
  show ?thesis
    unfolding trimmed_def t
  proof (intro conjI exI)
    show "s = pre @ rev core @ suf"
      by (rule whole)
    show "list_all isspace pre"
      by (rule pre)
    show "list_all isspace suf"
      by (rule suf)
    show "rev core = [] \<or> \<not> (isspace (hd (rev core)) \<or> isspace (last (rev core)))"
      using ends by (cases "rev core = []") (simp_all only: simp_thms)
  qed
qed

lemma strip_padded:
  assumes "list_all isspace pre" and "list_all isspace suf"
    and "t = [] \<or> \<not> (isspace (hd t) \<or> isspace (last t))"
  shows "strip (pre @ t @ suf) = t"
proof (cases "t = []")
  case True
  with assms(1,2) have "\<forall>x \<in> set (pre @ t @ suf). isspace x"
    by (auto simp: list_all_iff)
  then have "dropWhile isspace (pre @ t @ suf) = []"
    by (simp only: dropWhile_eq_Nil_conv)
  then have "strip (pre @ t @ suf) = []"
    unfolding strip_def by (simp only: dropWhile.simps rev.simps)
  with True show ?thesis
    by (simp only:)
next
  case False
  with assms(3) have h: "\<not> isspace (hd t)" and l: "\<not> isspace (last t)"
    by simp_all
  from False h have "dropWhile isspace (t @ suf) = t @ suf"
    by (cases t) simp_all
  with assms(1) have left: "dropWhile isspace (pre @ t @ suf) = t @ suf"
    by (simp add: dropWhile_append2 list_all_iff)
  from False l have "dropWhile isspace (rev t) = rev t"
    by (cases t rule: rev_cases) simp_all
  moreover have "dropWhile isspace (rev suf @ rev t) = dropWhile isspace (rev t)"
    by (rule dropWhile_append2) (use assms(2) in \<open>auto simp: list_all_iff\<close>)
  ultimately have "dropWhile isspace (rev suf @ rev t) = rev t"
    by simp
  with left show ?thesis
    by (simp add: strip_def)
qed

lemma trimmed_unique:
  assumes "trimmed s t"
  shows "t = strip s"
proof -
  from assms obtain pre suf where s: "s = pre @ t @ suf"
    and pre: "list_all isspace pre" and suf: "list_all isspace suf"
    and ends: "t = [] \<or> \<not> (isspace (hd t) \<or> isspace (last t))"
    unfolding trimmed_def by (elim conjE exE)
  from pre suf ends have "strip (pre @ t @ suf) = t"
    by (rule strip_padded)
  then show ?thesis
    unfolding s by (rule sym)
qed

lemma trimmed_pieces: "list_all2 trimmed xs (map strip xs)"
  by (induction xs) (simp_all add: trimmed_strip)

lemma trimmed_pieces_unique: "list_all2 trimmed xs ps \<Longrightarrow> ps = map strip xs"
  by (induction xs ps rule: list_all2_induct) (simp_all add: trimmed_unique)

lemma strings_below_set: "set (strings_below m) = {s. below (NavigableString s) m}"
proof -
  have "s \<in> set (strings_below m) \<longleftrightarrow> NavigableString s \<in> set (descendants m)" for s
    by (auto simp: strings_below_def split: node.splits)
  then show ?thesis
    by (auto simp: descendants_below)
qed

lemma field_value_find:
  "field_value item cls =
     (case find (matches (lit ''div'') cls) (descendants item) of
        None \<Rightarrow> lit ''N/A''
      | Some n \<Rightarrow> concat (map strip (strings_below n)))"
  by (simp add: field_value_def find_tag_find get_text_strings NA_def div_tag_def
      split: option.splits)


text \<open>The scenario of the specification, evaluated: the first listing has all seven
  fields, the price among them trimmed; the second lacks its price and its energy mark.\<close>

lemma extract_example_soup:
  "extract_listings example_soup = Inr
     [[lit ''Villa'', lit ''4'', lit ''120 m'' @ [178], lit ''2.500.000'', lit ''Main St 1'',
       lit ''A'', lit ''2024-01-01''],
      [lit ''Villa'', lit ''3'', lit ''95 m'' @ [178], lit ''N/A'', lit ''Main St 2'',
       lit ''N/A'', lit ''2024-01-02'']]"
  by (simp add: extract_listings_def listing_record_def scrape_field_def bind_result_def
      find_tag_def find_all_def get_text_of_def get_text_def strip_def isspace_def example_defs)



text \<open>
  Claim C2. A document with no \<^verbatim>\<open>div\<close> of class \<^verbatim>\<open>search-list-item\<close> below it makes the
  extractor return the empty sequence, as a value and not as an error.
\<close>

theorem extract_no_listings_empty:
  assumes "\<forall>n \<in> set (descendants soup). \<not> matches div_tag listing_marker n"
  shows "extract_listings soup = Inr []"
proof -
  from assms have "find_all soup div_tag listing_marker = []"
    by (simp add: find_all_def filter_empty_conv)
  then show ?thesis
    by (simp add: extract_listings_def)
qed

theorem extract_no_listings_empty_witness:
  "\<not> (\<exists>n \<in> set (descendants example_no_listing). matches div_tag listing_marker n) \<and>
   extract_listings example_no_listing = Inr []"
proof -
  have h: "\<forall>n \<in> set (descendants example_no_listing). \<not> matches div_tag listing_marker n"
    by (simp add: example_no_listing_def div_tag_def listing_marker_def lit_def)
  from h extract_no_listings_empty [OF h] show ?thesis
    by simp
qed

text \<open>
  Claim C9, as stated, fails: a price two levels below the listing container is found,
  and its text is gathered from a nested tag, although no direct child carries the marker.
\<close>

theorem field_lookup_direct_children_counterexample:
  "find_direct_child example_nested div_tag (lit ''price'') = None \<and>
   scrape_field example_nested (lit ''price'') = Inr (lit ''2.500.000kr'')"
  by (simp add: find_direct_child_def scrape_field_def find_tag_def find_all_def get_text_of_def
      get_text_def strip_def isspace_def nested_defs)

text \<open>
  Claim C9, amended. Each sub-marker is looked up among all descendants of the listing
  container, the nodes at any depth below it. The field is the sentinel \<^verbatim>\<open>N/A\<close> when no
  descendant matches. Otherwise it is the text of the first matching descendant in
  document order: every string below that match, at any depth, trimmed, joined in
  document order.
\<close>

theorem field_lookup_all_descendants:
  "set (descendants item) = {n. below n item} \<and>
   (case find (matches (lit ''div'') cls) (descendants item) of
      None \<Rightarrow> scrape_field item cls = Inr (lit ''N/A'')
    | Some m \<Rightarrow>
        below m item \<and>
        set (strings_below m) = {s. below (NavigableString s) m} \<and>
        (\<exists>pieces. list_all2 trimmed (strings_below m) pieces \<and>
           scrape_field item cls = Inr (concat pieces)))"
proof (intro conjI)
  show "set (descendants item) = {n. below n item}"
    by (auto simp: descendants_below)
  show "case find (matches (lit ''div'') cls) (descendants item) of
      None \<Rightarrow> scrape_field item cls = Inr (lit ''N/A'')
    | Some m \<Rightarrow>
        below m item \<and>
        set (strings_below m) = {s. below (NavigableString s) m} \<and>
        (\<exists>pieces. list_all2 trimmed (strings_below m) pieces \<and>
           scrape_field item cls = Inr (concat pieces))"
  proof (cases "find (matches (lit ''div'') cls) (descendants item)")
    case None
    then show ?thesis
      by (simp add: scrape_field_value field_value_find)
  next
    case (Some m)
    then have "m \<in> set (descendants item)"
      by (auto simp: find_Some_iff)
    then have "below m item"
      by (simp add: descendants_below)
    moreover have "set (strings_below m) = {s. below (NavigableString s) m}"
      by (rule strings_below_set)
    moreover have "list_all2 trimmed (strings_below m) (map strip (strings_below m))"
      by (rule trimmed_pieces)
    moreover have "scrape_field item cls = Inr (concat (map strip (strings_below m)))"
      using Some by (simp add: scrape_field_value field_value_find)
    ultimately show ?thesis
      using Some by auto
  qed
qed

text \<open>A listing without price, and the listing with three prices: the first match lies
  two levels down, and the text of the price nested in it is part of the field.\<close>

theorem field_lookup_all_descendants_witness:
  "find (matches (lit ''div'') (lit ''price'')) (descendants (text_div ''rooms'' (lit ''4''))) = None \<and>
   scrape_field (text_div ''rooms'' (lit ''4'')) (lit ''price'') = Inr (lit ''N/A'') \<and>
   find_direct_child example_prices (lit ''div'') (lit ''price'') =
     Some (Tag (lit ''div'') [lit ''price''] [NavigableString (lit ''3'')]) \<and>
   find (matches (lit ''div'') (lit ''price'')) (descendants example_prices) =
     Some (Tag (lit ''div'') [lit ''price'']
       [NavigableString (lit '' 1 ''),
        Tag (lit ''div'') [lit ''price''] [NavigableString (lit ''2'')]]) \<and>
   scrape_field example_prices (lit ''price'') = Inr (lit ''12'')"
proof -
  let ?first = "Tag (lit ''div'') [lit ''price'']
       [NavigableString (lit '' 1 ''),
        Tag (lit ''div'') [lit ''price''] [NavigableString (lit ''2'')]]"
  have none: "find (matches (lit ''div'') (lit ''price''))
      (descendants (text_div ''rooms'' (lit ''4''))) = None"
    by (simp add: text_div_def)
  have direct: "find_direct_child example_prices (lit ''div'') (lit ''price'') =
     Some (Tag (lit ''div'') [lit ''price''] [NavigableString (lit ''3'')])"
    by (simp add: find_direct_child_def example_prices_def div_tag_def lit_def)
  have first: "find (matches (lit ''div'') (lit ''price'')) (descendants example_prices) = Some ?first"
    by (simp add: example_prices_def div_tag_def lit_def)
  have strings: "strings_below ?first = [lit '' 1 '', lit ''2'']"
    by (simp add: strings_below_def)
  have stripped: "map strip [lit '' 1 '', lit ''2''] = [lit ''1'', lit ''2'']"
    by (simp add: strip_def isspace_def lit_def)
  from field_lookup_all_descendants [of "text_div ''rooms'' (lit ''4'')" "lit ''price''"] none
  have absent: "scrape_field (text_div ''rooms'' (lit ''4'')) (lit ''price'') = Inr (lit ''N/A'')"
    by simp
  from field_lookup_all_descendants [of example_prices "lit ''price''"] first strings
  obtain pieces where "list_all2 trimmed [lit '' 1 '', lit ''2''] pieces"
    and field: "scrape_field example_prices (lit ''price'') = Inr (concat pieces)"
    by auto
  then have "pieces = map strip [lit '' 1 '', lit ''2'']"
    by (intro trimmed_pieces_unique)
  with field stripped have "scrape_field example_prices (lit ''price'') = Inr (lit ''12'')"
    by (simp add: lit_def)
  with none absent direct first show ?thesis
    by blast
qed

section \<open>Properties of the encoder, the writer and the reader\<close>

subsection \<open>The text in closed form\<close>

lemma concat_closing_chunks:
  "concat (closing_chunks indent level) = newline_indent indent level @ [93]"
  by (cases indent) (simp_all add: closing_chunks_def newline_indent_def)

lemma concat_string_chunks:
  "row \<noteq> [] \<Longrightarrow>
   concat (string_chunks ensure_ascii buf sep row) =
     buf @ join sep (map (encode_basestring ensure_ascii) row)"
proof (induction row arbitrary: buf)
  case Nil
  then show ?case by simp
next
  case (Cons v vs)
  show ?case
  proof (cases vs)
    case Nil
    then show ?thesis by simp
  next
    case (Cons v' vs')
    with Cons.IH [of sep] show ?thesis by simp
  qed
qed

lemma concat_iterencode_row:
  "concat (iterencode_row ensure_ascii indent level row) =
     bracketed indent level (map (encode_basestring ensure_ascii) row)"
  by (simp add: iterencode_row_def bracketed_def concat_string_chunks concat_closing_chunks)

lemma concat_row_chunks:
  "rows \<noteq> [] \<Longrightarrow>
   concat (row_chunks ensure_ascii indent buf sep rows) =
     buf @ join sep (map (\<lambda>row. bracketed indent 1 (map (encode_basestring ensure_ascii) row)) rows)"
proof (induction rows arbitrary: buf)
  case Nil
  then show ?case by simp
next
  case (Cons r rs)
  show ?case
  proof (cases rs)
    case Nil
    then show ?thesis by (simp add: concat_iterencode_row)
  next
    case (Cons r' rs')
    with Cons.IH [of sep] show ?thesis by (simp add: concat_iterencode_row)
  qed
qed

lemma json_dumps_closed:
  "json_dumps ensure_ascii indent data =
     bracketed indent 0 (map (\<lambda>row. bracketed indent 1 (map (encode_basestring ensure_ascii) row)) data)"
  by (simp add: json_dumps_def iterencode_def bracketed_def concat_row_chunks concat_closing_chunks)

lemma iterencode_not_Nil: "iterencode ensure_ascii indent data \<noteq> []"
  by (cases data) (simp_all add: iterencode_def)

subsection \<open>What can be encoded\<close>

lemma hexdigit_ascii: "d < 16 \<Longrightarrow> hexdigit d < 128"
  by (simp add: hexdigit_def)

lemma u_escape_ascii: "c \<in> set (u_escape n) \<Longrightarrow> c < 128"
  using hexdigit_ascii [of "n div 4096 mod 16"] hexdigit_ascii [of "n div 256 mod 16"]
    hexdigit_ascii [of "n div 16 mod 16"] hexdigit_ascii [of "n mod 16"]
  by (auto simp: u_escape_def)

lemma escape_dct_ascii:
  assumes "escape_dct c = Some e"
  shows "c < 32 \<or> c = 34 \<or> c = 92" and "\<forall>x \<in> set e. x < 128"
  using assms u_escape_ascii [of _ c] by (auto simp: escape_dct_def split: if_splits)

lemma scalar_escape_char: "scalar_value c \<Longrightarrow> list_all scalar_value (escape_char c)"
proof (cases "escape_dct c")
  case None
  assume "scalar_value c"
  with None show ?thesis by (simp add: escape_char_def)
next
  case (Some e)
  from escape_dct_ascii(2) [OF Some] have "list_all scalar_value e"
    by (auto simp: list_all_iff scalar_value_def)
  with Some show ?thesis by (simp add: escape_char_def)
qed

lemma scalar_encode_basestring:
  assumes "list_all scalar_value s"
  shows "list_all scalar_value (encode_basestring False s)"
proof -
  from assms have "list_all scalar_value (concat (map escape_char s))"
    by (induction s) (simp_all add: scalar_escape_char)
  then show ?thesis
    by (simp add: encode_basestring_def scalar_value_def)
qed

lemma scalar_newline_indent: "list_all scalar_value (newline_indent indent level)"
  by (cases indent) (simp_all add: newline_indent_def scalar_value_def list_all_iff)

lemma scalar_item_separator: "list_all scalar_value (item_separator indent)"
  by (cases indent) (simp_all add: item_separator_def scalar_value_def)

lemma scalar_closing_chunks: "list_all (list_all scalar_value) (closing_chunks indent level)"
  by (cases indent) (simp_all add: closing_chunks_def scalar_newline_indent scalar_value_def)

lemma scalar_string_chunks:
  assumes "list_all scalar_value buf" and "list_all scalar_value sep"
    and "list_all (list_all scalar_value) row"
  shows "list_all (list_all scalar_value) (string_chunks False buf sep row)"
  using assms by (induction row arbitrary: buf) (simp_all add: scalar_encode_basestring)

lemma scalar_iterencode_row:
  assumes "list_all (list_all scalar_value) row"
  shows "list_all (list_all scalar_value) (iterencode_row False indent level row)"
proof (cases "row = []")
  case True
  then show ?thesis by (simp add: iterencode_row_def scalar_value_def)
next
  case False
  have "list_all scalar_value ([91] @ newline_indent indent (level + 1))"
    using scalar_newline_indent by (simp add: scalar_value_def)
  moreover have "list_all scalar_value (item_separator indent @ newline_indent indent (level + 1))"
    using scalar_newline_indent scalar_item_separator by simp
  ultimately show ?thesis
    using False assms by (simp add: iterencode_row_def scalar_string_chunks scalar_closing_chunks)
qed

lemma scalar_row_chunks:
  assumes "list_all scalar_value buf" and "list_all scalar_value sep"
    and "list_all (list_all (list_all scalar_value)) rows"
  shows "list_all (list_all scalar_value) (row_chunks False indent buf sep rows)"
  using assms by (induction rows arbitrary: buf) (simp_all add: scalar_iterencode_row)

lemma scalar_iterencode:
  assumes "list_all (list_all (list_all scalar_value)) data"
  shows "list_all (list_all scalar_value) (iterencode False indent data)"
proof (cases "data = []")
  case True
  then show ?thesis by (simp add: iterencode_def scalar_value_def)
next
  case False
  have "list_all scalar_value ([91] @ newline_indent indent 1)"
    using scalar_newline_indent by (simp add: scalar_value_def)
  moreover have "list_all scalar_value (item_separator indent @ newline_indent indent 1)"
    using scalar_newline_indent scalar_item_separator by simp
  ultimately show ?thesis
    using False assms by (simp add: iterencode_def scalar_row_chunks scalar_closing_chunks)
qed

lemma scalar_json_dumps:
  assumes "list_all (list_all (list_all scalar_value)) data"
  shows "list_all scalar_value (json_dumps False indent data)"
  using scalar_iterencode [OF assms, of indent] by (simp add: json_dumps_def list_all_iff)

subsection \<open>Writing\<close>

lemma file_bytes_upd: "file_bytes (w\<lparr>files := (files w)(path \<mapsto> written)\<rparr>) path = written"
  by (simp add: file_bytes_def)

lemma write_chunks_encodable:
  "list_all (list_all scalar_value) chunks \<Longrightarrow> chunks \<noteq> [] \<Longrightarrow> write_chunks path chunks w =
     (Inr (), w\<lparr>files := (files w)(path \<mapsto>
        file_bytes w path @ concat (map utf8_char (concat chunks)))\<rparr>)"
proof (induction path chunks w rule: write_chunks.induct)
  case (1 path w)
  then show ?case by simp
next
  case (2 path c cs w)
  then have c: "encode_utf8 c = Inr (concat (map utf8_char c))"
    by (simp add: encode_utf8_def)
  show ?case
  proof (cases "cs = []")
    case True
    with c show ?thesis by (simp add: fun_upd_def)
  next
    case False
    let ?w = "w\<lparr>files := (files w)(path \<mapsto> file_bytes w path @ concat (map utf8_char c))\<rparr>"
    from "2.prems" have "list_all (list_all scalar_value) cs"
      by simp
    moreover have "(\<lambda>a. if a = p then x else if a = p then y else f a) = (\<lambda>a. if a = p then x else f a)"
      for p :: str and x y :: "bytes option" and f
      by auto
    ultimately show ?thesis
      using "2.IH" [OF c _ False] c by (simp add: file_bytes_def fun_upd_def)
  qed
qed

lemma write_file_encodable:
  assumes "open_for_writing path w = (Inr (), w0)"
    and "list_all (list_all scalar_value) chunks" and "chunks \<noteq> []"
  shows "write_file path chunks w =
     (Inr (), w\<lparr>files := (files w)(path \<mapsto> concat (map utf8_char (concat chunks)))\<rparr>)"
proof -
  from assms(1) have w0: "w0 = w\<lparr>files := (files w)(path \<mapsto> [])\<rparr>"
    by (auto simp: open_for_writing_def split: sum.splits if_splits)
  from write_chunks_encodable [OF assms(2,3), of path w0] assms(1) show ?thesis
    by (simp add: write_file_def bind_action_def w0 file_bytes_upd)
qed

subsection \<open>UTF-8 read back\<close>

lemma three_bytes: "c div 4096 * 4096 + c div 64 mod 64 * 64 + c mod 64 = (c::nat)"
proof -
  have "c mod (64 * 64) = 64 * (c div 64 mod 64) + c mod 64"
    by (rule mod_mult2_eq)
  then have low: "c mod 4096 = 64 * (c div 64 mod 64) + c mod 64"
    by simp
  have "c = c div 4096 * 4096 + c mod 4096"
    by simp
  with low show ?thesis
    by linarith
qed

lemma four_bytes:
  "c div 262144 * 262144 + c div 4096 mod 64 * 4096 + c div 64 mod 64 * 64 + c mod 64 = (c::nat)"
proof -
  have "c mod (4096 * 64) = 4096 * (c div 4096 mod 64) + c mod 4096"
    by (rule mod_mult2_eq)
  then have high: "c mod 262144 = 4096 * (c div 4096 mod 64) + c mod 4096"
    by simp
  have "c mod (64 * 64) = 64 * (c div 64 mod 64) + c mod 64"
    by (rule mod_mult2_eq)
  then have low: "c mod 4096 = 64 * (c div 64 mod 64) + c mod 64"
    by simp
  have "c = c div 262144 * 262144 + c mod 262144"
    by simp
  with high low show ?thesis
    by linarith
qed

lemma decode_utf8_char:
  assumes "scalar_value c"
  shows "decode_utf8 (utf8_char c @ bs) = decoded c (decode_utf8 bs)"
proof -
  define b1 where "b1 = c mod 64"
  define b2 where "b2 = c div 64 mod 64"
  define b3 where "b3 = c div 4096 mod 64"
  have low: "b1 < 64" "b2 < 64" "b3 < 64"
    by (simp_all add: b1_def b2_def b3_def)
  consider "c < 128" | "128 \<le> c" "c < 2048" | "2048 \<le> c" "c < 65536" | "65536 \<le> c"
    by linarith
  then show ?thesis
  proof cases
    case 1
    then show ?thesis
      by (simp add: utf8_char_def)
  next
    case 2
    define q where "q = c div 64"
    from 2 have q: "q < 32"
      by (simp add: q_def div_less_iff_less_mult)
    have c: "q * 64 + b1 = c"
      by (simp add: q_def b1_def)
    from 2 have "utf8_char c = [192 + q, 128 + b1]"
      by (simp add: utf8_char_def q_def b1_def)
    moreover have "decode_utf8 ([192 + q, 128 + b1] @ bs) = decoded (q * 64 + b1) (decode_utf8 bs)"
      using q low(1) 2 c by (simp add: continuation_def)
    ultimately show ?thesis
      by (simp only: c)
  next
    case 3
    define q where "q = c div 4096"
    from 3 have q: "q < 16"
      by (simp add: q_def div_less_iff_less_mult)
    have c: "q * 4096 + b2 * 64 + b1 = c"
      unfolding q_def b1_def b2_def by (rule three_bytes)
    from 3 have "utf8_char c = [224 + q, 128 + b2, 128 + b1]"
      by (simp add: utf8_char_def q_def b1_def b2_def)
    moreover have "decode_utf8 ([224 + q, 128 + b2, 128 + b1] @ bs) =
        decoded (q * 4096 + b2 * 64 + b1) (decode_utf8 bs)"
      using q low(1,2) 3 c assms by (simp add: continuation_def)
    ultimately show ?thesis
      by (simp only: c)
  next
    case 4
    define q where "q = c div 262144"
    from assms 4 have "c < 1114112"
      by (simp add: scalar_value_def)
    then have q: "q < 8"
      by (simp add: q_def div_less_iff_less_mult)
    have c: "q * 262144 + b3 * 4096 + b2 * 64 + b1 = c"
      unfolding q_def b1_def b2_def b3_def by (rule four_bytes)
    from 4 have "utf8_char c = [240 + q, 128 + b3, 128 + b2, 128 + b1]"
      by (simp add: utf8_char_def q_def b1_def b2_def b3_def)
    moreover have "decode_utf8 ([240 + q, 128 + b3, 128 + b2, 128 + b1] @ bs) =
        decoded (q * 262144 + b3 * 4096 + b2 * 64 + b1) (decode_utf8 bs)"
      using q low 4 c assms by (simp add: continuation_def)
    ultimately show ?thesis
      by (simp only: c)
  qed
qed

lemma decode_utf8_encoded:
  "list_all scalar_value s \<Longrightarrow> decode_utf8 (concat (map utf8_char s)) = Inr s"
proof (induction s)
  case Nil
  then show ?case by simp
next
  case (Cons c s)
  then show ?case
    by (simp add: decode_utf8_char decoded_def del: decode_utf8.simps)
qed

subsection \<open>Reading the text back\<close>

lemma hexval_hexdigit: "d < 16 \<Longrightarrow> hexval (hexdigit d) = Some d"
  by (simp add: hexval_def hexdigit_def)

lemma hex_digits_value:
  assumes "(n::nat) < 65536"
  shows "n div 4096 mod 16 * 4096 + n div 256 mod 16 * 256 + n div 16 mod 16 * 16 + n mod 16 = n"
proof -
  have d2: "n div 256 = n div 16 div 16" and d3: "n div 4096 = n div 16 div 16 div 16"
    by (simp_all add: div_mult2_eq)
  from assms have "n div 4096 < 16"
    by (simp add: div_less_iff_less_mult)
  then have top: "n div 4096 mod 16 = n div 4096"
    by simp
  have e1: "n = 16 * (n div 16) + n mod 16"
    by simp
  have e2: "n div 16 = 16 * (n div 256) + n div 16 mod 16"
    unfolding d2 by simp
  have e3: "n div 256 = 16 * (n div 4096) + n div 256 mod 16"
    unfolding d2 d3 by simp
  from e1 e2 e3 show ?thesis
    unfolding top by linarith
qed

lemma decode_u_escape:
  assumes "n < 65536"
  shows "decode_uXXXX (drop 2 (u_escape n) @ rest) = Some (n, rest)"
proof -
  let ?a = "n div 4096 mod 16" and ?b = "n div 256 mod 16" and ?c = "n div 16 mod 16"
    and ?d = "n mod 16"
  have "decode_uXXXX ([hexdigit ?a, hexdigit ?b, hexdigit ?c, hexdigit ?d] @ rest) =
      Some (?a * 4096 + ?b * 256 + ?c * 16 + ?d, rest)"
    unfolding decode_uXXXX_def by (simp add: hexval_hexdigit)
  also have "?a * 4096 + ?b * 256 + ?c * 16 + ?d = n"
    by (rule hex_digits_value [OF assms])
  finally show ?thesis
    by (simp add: u_escape_def)
qed

lemma scanstring_escape_char:
  assumes "scanstring t = Inr (s, rest)"
  shows "scanstring (escape_char c @ t) = Inr (c # s, rest)"
proof (cases "escape_dct c")
  case None
  then have "32 \<le> c" "c \<noteq> 34" "c \<noteq> 92"
    by (auto simp: escape_dct_def split: if_splits)
  with None assms show ?thesis
    by (simp add: escape_char_def prepend_def)
next
  case (Some e)
  show ?thesis
  proof (cases "c \<in> {92, 34, 8, 12, 10, 13, 9}")
    case True
    with assms show ?thesis
      by (auto simp: escape_char_def escape_dct_def backslash_def prepend_def)
  next
    case False
    with Some have c: "c < 32" and e: "e = u_escape c"
      by (auto simp: escape_dct_def split: if_splits)
    obtain us where us: "u_escape c = 92 # 117 # us" "drop 2 (u_escape c) = us"
      by (simp add: u_escape_def)
    have "decode_uXXXX (us @ t) = Some (c, t)"
      using c decode_u_escape [of c t] us by simp
    then have "scanstring (u_escape c @ t) = Inr (c # s, rest)"
      using c assms by (simp add: us(1) prepend_def)
    with Some e show ?thesis
      by (simp add: escape_char_def)
  qed
qed

lemma scanstring_escaped:
  "scanstring (concat (map escape_char s) @ 34 # rest) = Inr (s, rest)"
  by (induction s) (simp_all add: scanstring_escape_char)

lemma scan_string_encode_basestring:
  "scan_string (encode_basestring False s @ rest) = Inr (s, rest)"
  by (simp add: scan_string_def encode_basestring_def scanstring_escaped)

lemma skip_whitespace_newline_indent:
  "skip_whitespace (newline_indent indent level @ t) = skip_whitespace t"
proof (cases indent)
  case None
  then show ?thesis by (simp add: newline_indent_def)
next
  case (Some k)
  have "dropWhile json_whitespace (replicate m 32 @ t) = dropWhile json_whitespace t" for m
    by (rule dropWhile_append2) (simp add: json_whitespace_def)
  with Some show ?thesis
    by (simp add: newline_indent_def skip_whitespace_def json_whitespace_def)
qed

lemma skip_whitespace_after_comma:
  "item_separator indent @ newline_indent indent level @ t = 44 # u \<Longrightarrow>
   skip_whitespace u = skip_whitespace t"
proof (cases indent)
  case None
  assume "item_separator indent @ newline_indent indent level @ t = 44 # u"
  with None have "u = 32 # t"
    by (simp add: item_separator_def newline_indent_def)
  then show ?thesis
    by (simp add: skip_whitespace_def json_whitespace_def)
next
  case (Some k)
  assume "item_separator indent @ newline_indent indent level @ t = 44 # u"
  with Some have "u = newline_indent indent level @ t"
    by (simp add: item_separator_def)
  then show ?thesis
    by (simp add: skip_whitespace_newline_indent)
qed

lemma array_items_join:
  assumes "\<forall>x \<in> set (x # xs). scans scan_once enc x"
  shows "array_items scan_once
           (join (item_separator indent @ newline_indent indent level) (map enc (x # xs)) @
            newline_indent indent level' @ 93 # rest) = Inr (x # xs, rest)"
  using assms
proof (induction xs arbitrary: x)
  case Nil
  then have x: "\<And>r. scan_once (enc x @ r) = Inr (x, r)" and "enc x \<noteq> []"
    by (auto simp: scans_def)
  have "skip_whitespace (newline_indent indent level' @ 93 # rest) = 93 # rest"
    by (simp add: skip_whitespace_newline_indent) (simp add: skip_whitespace_def json_whitespace_def)
  with x \<open>enc x \<noteq> []\<close> show ?case
    by (subst array_items.simps) simp
next
  case (Cons y ys)
  let ?sep = "item_separator indent @ newline_indent indent level"
  let ?tail = "join ?sep (map enc (y # ys)) @ newline_indent indent level' @ 93 # rest"
  from Cons.prems have x: "\<And>r. scan_once (enc x @ r) = Inr (x, r)" and nx: "enc x \<noteq> []"
    and y: "scans scan_once enc y" and rest: "\<forall>z \<in> set (y # ys). scans scan_once enc z"
    by (auto simp: scans_def)
  from y obtain c cs where c: "enc y = c # cs" "\<not> json_whitespace c"
    by (auto simp: scans_def)
  obtain u where u: "?sep @ ?tail = 44 # u"
    by (cases indent) (simp_all add: item_separator_def)
  then have "skip_whitespace u = skip_whitespace ?tail"
    using skip_whitespace_after_comma [of indent level ?tail u] by simp
  also have "\<dots> = ?tail"
    using c by (cases ys) (simp_all add: skip_whitespace_def)
  finally have su: "skip_whitespace u = ?tail" .
  have ih: "array_items scan_once ?tail = Inr (y # ys, rest)"
    by (rule Cons.IH [OF rest])
  have "join ?sep (map enc (x # y # ys)) @ newline_indent indent level' @ 93 # rest =
      enc x @ 44 # u"
    using u by simp
  moreover have "array_items scan_once (enc x @ 44 # u) = Inr (x # y # ys, rest)"
    using x nx su ih
    by (subst array_items.simps) (simp add: skip_whitespace_def json_whitespace_def prepend_def)
  ultimately show ?case
    by simp
qed

lemma json_array_bracketed:
  assumes "\<forall>x \<in> set xs. scans scan_once enc x"
  shows "json_array scan_once (bracketed indent level (map enc xs) @ rest) = Inr (xs, rest)"
proof (cases xs)
  case Nil
  then show ?thesis
    by (simp add: json_array_def bracketed_def skip_whitespace_def json_whitespace_def)
next
  case (Cons x ys)
  let ?body = "join (item_separator indent @ newline_indent indent (level + 1)) (map enc (x # ys)) @
      newline_indent indent level @ 93 # rest"
  from assms Cons obtain c cs where c: "enc x = c # cs" "\<not> json_whitespace c" "c \<noteq> 93"
    by (auto simp: scans_def)
  then obtain t where t: "?body = c # t"
    by (cases ys) simp_all
  with c have "skip_whitespace ?body = c # t"
    by (simp add: skip_whitespace_def)
  then have "skip_whitespace (newline_indent indent (level + 1) @ ?body) = c # t"
    by (simp only: skip_whitespace_newline_indent)
  moreover have "array_items scan_once ?body = Inr (x # ys, rest)"
    using assms Cons by (intro array_items_join) simp
  ultimately show ?thesis
    using Cons c t by (simp add: json_array_def bracketed_def)
qed

lemma scans_string: "scans scan_string (encode_basestring False) s"
  by (simp add: scans_def scan_string_encode_basestring)
     (simp add: encode_basestring_def json_whitespace_def)

lemma scans_row:
  "scans (json_array scan_string)
     (\<lambda>row. bracketed indent level (map (encode_basestring False) row)) row"
proof -
  let ?enc = "\<lambda>row. bracketed indent level (map (encode_basestring False) row)"
  have "json_array scan_string (?enc row @ rest) = Inr (row, rest)" for rest
    by (intro json_array_bracketed ballI scans_string)
  moreover have "\<exists>c cs. ?enc row = c # cs \<and> \<not> json_whitespace c \<and> c \<noteq> 93"
    by (simp add: bracketed_def json_whitespace_def)
  ultimately show ?thesis
    unfolding scans_def by blast
qed

lemma json_loads_json_dumps: "json_loads (json_dumps False indent data) = Inr data"
proof -
  let ?enc = "\<lambda>row. bracketed indent 1 (map (encode_basestring False) row)"
  have "json_array (json_array scan_string) (bracketed indent 0 (map ?enc data) @ []) =
      Inr (data, [])"
    by (rule json_array_bracketed) (simp add: scans_row)
  moreover have "skip_whitespace (bracketed indent 0 (map ?enc data)) =
      bracketed indent 0 (map ?enc data)"
    by (simp add: bracketed_def skip_whitespace_def json_whitespace_def)
  ultimately show ?thesis
    by (simp add: json_loads_def json_dumps_closed skip_whitespace_def)
qed

section \<open>Properties of the pipeline\<close>

subsection \<open>Folders and paths\<close>

lemma netloc_no_slash:
  assumes "urlparse_netloc url = Inr domain"
  shows "47 \<notin> set domain"
proof -
  have "47 \<notin> set (takeWhile (\<lambda>c. \<not> netloc_delimiter c) xs)" for xs
    by (auto dest: set_takeWhileD simp: netloc_delimiter_def)
  with assms show ?thesis
    by (auto simp: urlparse_netloc_def Let_def split: if_splits)
qed

lemma first_label_subset: "set (first_label domain) \<subseteq> set domain"
  by (auto simp: first_label_def dest: set_takeWhileD)

lemma makedirs_cases:
  "makedirs name w =
     (case entry_error name of
        Some e \<Rightarrow> (Inl e, w)
      | None \<Rightarrow>
          if name \<in> dirs w then (Inr (), w)
          else if name \<in> dom (files w) then (Inl FileExistsError, w)
          else (Inr (), w\<lparr>dirs := insert name (dirs w)\<rparr>))"
  by (simp add: makedirs_def mkdir_def isdir_def is_oserror_def split: option.splits)

lemma entry_error_Nil: "entry_error [] = Some FileNotFoundError"
  by (simp add: entry_error_def fsencode_def fs_bytes_def)

lemma entry_error_None:
  assumes "entry_error name = None"
  shows "name \<noteq> []" and "0 \<notin> set name"
    and "list_all (\<lambda>c. scalar_value c \<or> escaped_byte c) name"
    and "length (fs_bytes name) \<le> name_max"
  using assms by (auto simp: entry_error_def fsencode_def split: if_splits)

lemma create_website_folder_cases:
  "create_website_folder url w =
     (case urlparse_netloc url of
        Inl e \<Rightarrow> (Inl e, w)
      | Inr domain \<Rightarrow>
          (case makedirs (first_label domain) w of
             (Inl e, w1) \<Rightarrow> (Inl e, w1)
           | (Inr u, w1) \<Rightarrow> (Inr (first_label domain), w1)))"
  by (simp add: create_website_folder_def bind_action_def return_action_def Let_def
      split: sum.splits prod.splits)

lemma create_website_folder_Inr:
  assumes "create_website_folder url w = (Inr folder, w1)"
  shows "folder \<noteq> [] \<and> 47 \<notin> set folder \<and> folder \<in> dirs w1 \<and>
         w1 = w\<lparr>dirs := insert folder (dirs w)\<rparr> \<and> entry_error folder = None"
proof -
  from assms obtain domain where d: "urlparse_netloc url = Inr domain"
    by (cases "urlparse_netloc url") (simp_all add: create_website_folder_cases)
  from netloc_no_slash [OF d] first_label_subset [of domain]
  have slash: "47 \<notin> set (first_label domain)"
    by auto
  from assms d have f: "folder = first_label domain"
    and m: "makedirs (first_label domain) w = (Inr (), w1)"
    by (auto simp: create_website_folder_cases split: sum.splits prod.splits)
  from m have ok: "entry_error folder = None"
    unfolding f by (cases "entry_error (first_label domain)") (simp_all add: makedirs_cases)
  with m have "folder \<in> dirs w1 \<and> w1 = w\<lparr>dirs := insert folder (dirs w)\<rparr>"
    unfolding f by (auto simp: makedirs_cases insert_absorb split: if_splits)
  with slash ok entry_error_None(1) [OF ok] show ?thesis
    by (simp add: f)
qed

lemma create_website_folder_again:
  assumes "create_website_folder url w = (Inr folder, w1)" and "dirs w2 = dirs w1"
  shows "create_website_folder url w2 = (Inr folder, w2)"
proof -
  from assms(1) obtain domain where d: "urlparse_netloc url = Inr domain"
    by (cases "urlparse_netloc url") (simp_all add: create_website_folder_cases)
  from assms(1) d have f: "folder = first_label domain"
    by (auto simp: create_website_folder_cases split: sum.splits prod.splits)
  from create_website_folder_Inr [OF assms(1)] assms(2)
  have "entry_error folder = None" "folder \<in> dirs w2"
    by simp_all
  then have "makedirs (first_label domain) w2 = (Inr (), w2)"
    unfolding f by (simp add: makedirs_cases)
  with d f show ?thesis
    by (simp add: create_website_folder_cases)
qed

lemma path_join_slash:
  assumes "a \<noteq> []" and "47 \<notin> set a"
  shows "path_join a b = a @ [47] @ b"
proof -
  from assms have "last a \<noteq> 47"
    using last_in_set by metis
  with assms(1) show ?thesis
    by (simp add: path_join_def)
qed

lemma dirname_path_join:
  assumes "a \<noteq> []" and "47 \<notin> set a" and "47 \<notin> set b"
  shows "dirname (path_join a b) = a"
proof -
  from assms have la: "last a \<noteq> 47"
    using last_in_set by metis
  have "dropWhile (\<lambda>c. c \<noteq> 47) (rev b @ 47 # rev a) = dropWhile (\<lambda>c. c \<noteq> 47) (47 # rev a)"
    by (rule dropWhile_append2) (use assms(3) in auto)
  then have head: "rev (dropWhile (\<lambda>c. c \<noteq> 47) (rev (a @ [47] @ b))) = a @ [47]"
    by simp
  have nall: "\<not> list_all (\<lambda>c. c = 47) (a @ [47])"
    using assms(1,2) by (cases a) auto
  have "dropWhile (\<lambda>c. c = 47) (rev a) = rev a"
    using assms(1) la by (cases a rule: rev_cases) auto
  then have "rev (dropWhile (\<lambda>c. c = 47) (rev (a @ [47]))) = a"
    by simp
  with head nall la assms(1) show ?thesis
    by (simp add: dirname_def path_join_def Let_def)
qed

lemma takeWhile_until:
  "\<forall>x \<in> set xs. P x \<Longrightarrow> \<not> P y \<Longrightarrow> takeWhile P (xs @ y # ys) = xs"
  by (induction xs) simp_all

lemma basename_path_join:
  assumes "a \<noteq> []" and "47 \<notin> set a" and "47 \<notin> set b"
  shows "basename (path_join a b) = b"
proof -
  have "takeWhile (\<lambda>c. c \<noteq> 47) (rev b @ 47 # rev a) = rev b"
    by (rule takeWhile_until) (use assms(3) in auto)
  then show ?thesis
    by (simp add: basename_def path_join_slash [OF assms(1,2)])
qed

lemma fs_bytes_ascii: "list_all (\<lambda>c. c < 128) s \<Longrightarrow> fs_bytes s = s"
  by (induction s) (simp_all add: fs_bytes_def escaped_byte_def utf8_char_def)

text \<open>Opening a file with a plain ASCII name in a folder that \<^verbatim>\<open>create_website_folder\<close>
  made.\<close>

lemma open_in_folder:
  assumes folder: "entry_error folder = None" "47 \<notin> set folder" "folder \<in> dirs w"
    and name: "name \<noteq> []" "list_all (\<lambda>c. 0 < c \<and> c < 128 \<and> c \<noteq> 47) name"
      "length name \<le> name_max"
    and nodir: "path_join folder name \<notin> dirs w"
  shows "open_for_writing (path_join folder name) w =
     (Inr (), w\<lparr>files := (files w)(path_join folder name \<mapsto> [])\<rparr>)"
proof -
  note f = entry_error_None [OF folder(1)]
  from name(2) have slash: "47 \<notin> set name" and nul: "0 \<notin> set name"
    and ascii: "list_all (\<lambda>c. c < 128) name"
    by (auto simp: list_all_iff)
  have path: "path_join folder name = folder @ [47] @ name"
    by (rule path_join_slash [OF f(1) folder(2)])
  from ascii have "list_all (\<lambda>c. scalar_value c \<or> escaped_byte c) name"
    by (auto simp: list_all_iff scalar_value_def)
  with f(3) have "list_all (\<lambda>c. scalar_value c \<or> escaped_byte c) (path_join folder name)"
    by (simp add: path scalar_value_def)
  then have enc: "fsencode (path_join folder name) = Inr (fs_bytes (path_join folder name))"
    by (simp add: fsencode_def)
  from f(2) nul have nonul: "0 \<notin> set (path_join folder name)"
    by (simp add: path)
  have nonempty: "path_join folder name \<noteq> []"
    by (simp add: path)
  have dn: "dirname (path_join folder name) = folder"
    by (rule dirname_path_join [OF f(1) folder(2) slash])
  have bn: "basename (path_join folder name) = name"
    by (rule basename_path_join [OF f(1) folder(2) slash])
  from ascii name(3) have short: "\<not> name_max < length (fs_bytes name)"
    by (simp add: fs_bytes_ascii)
  from enc nonul nonempty dn bn short folder(3) name(1) nodir show ?thesis
    by (simp add: open_for_writing_def)
qed

lemma file_names:
  "property_data_json \<noteq> []"
  "list_all (\<lambda>c. 0 < c \<and> c < 128 \<and> c \<noteq> 47) property_data_json"
  "length property_data_json \<le> name_max"
  "property_analysis_md \<noteq> []"
  "list_all (\<lambda>c. 0 < c \<and> c < 128 \<and> c \<noteq> 47) property_analysis_md"
  "length property_analysis_md \<le> name_max"
  "property_report_md \<noteq> []"
  "list_all (\<lambda>c. 0 < c \<and> c < 128 \<and> c \<noteq> 47) property_report_md"
  "length property_report_md \<le> name_max"
  by (simp_all add: property_data_json_def property_analysis_md_def property_report_md_def
      lit_def name_max_def)

subsection \<open>The fetch inside scrape_website\<close>

lemma arun_frame:
  assumes "arun crawler url t w = (r, w')"
  shows "dirs w' = dirs w \<and> files w' = files w \<and> errors_logged w' = errors_logged w \<and>
         requests w' = requests w @ [url] \<and> waited w' \<le> waited w + t"
  using assms by (auto simp: arun_def wait_for_def split: crawl.splits if_splits)

lemma arun_Never:
  "crawler url = Never \<Longrightarrow>
   arun crawler url t w = (Inl TimeoutError, w\<lparr>requests := requests w @ [url], waited := waited w + t\<rparr>)"
  by (simp add: arun_def wait_for_def)

lemma arun_Completes:
  "crawler url = Completes t r \<Longrightarrow> t < timeout \<Longrightarrow>
   arun crawler url timeout w = (Inr r, w\<lparr>requests := requests w @ [url], waited := waited w + t\<rparr>)"
  by (simp add: arun_def wait_for_def)

lemma scrape_website_fetch_failed:
  assumes folder: "create_website_folder url w = (Inr folder, w1)"
    and fetch: "arun crawler url 300 w1 = (Inl e, w2)"
  shows "scrape_website crawler url w =
     (Inr (None, None),
      w2\<lparr>errors_logged := errors_logged w2 @
         [if e = TimeoutError then ScrapingTimedOut else ScrapingError e]\<rparr>)"
  using assms by (simp add: scrape_website_def bind_action_def logger_error_def return_action_def)

text \<open>After a fetch that returned, \<^verbatim>\<open>scrape_website\<close> is the write of the data file.\<close>

lemma scrape_website_write:
  assumes folder: "create_website_folder url w = (Inr folder, w1)"
    and fetch: "arun crawler url 300 w1 = (Inr result, w2)"
    and data: "extract_listings (html result) = Inr data"
  shows "scrape_website crawler url w =
     (case write_file (path_join folder property_data_json) (iterencode False (Some 2) data) w2 of
        (Inl e, w') \<Rightarrow> (Inl e, w')
      | (Inr u, w') \<Rightarrow> (Inr (Some data, extracted_content result), w'))"
  using assms
  by (simp add: scrape_website_def bind_action_def return_action_def split: sum.splits prod.splits)

lemma open_data_file:
  assumes folder: "create_website_folder url w = (Inr folder, w1)"
    and dirs: "dirs w2 = dirs w1"
    and nodir: "path_join folder name \<notin> dirs w"
    and name: "name \<noteq> []" "list_all (\<lambda>c. 0 < c \<and> c < 128 \<and> c \<noteq> 47) name"
      "length name \<le> name_max"
  shows "open_for_writing (path_join folder name) w2 =
     (Inr (), w2\<lparr>files := (files w2)(path_join folder name \<mapsto> [])\<rparr>)"
proof -
  from create_website_folder_Inr [OF folder]
  have f: "folder \<noteq> []" "47 \<notin> set folder" "folder \<in> dirs w1" "entry_error folder = None"
    and w1: "w1 = w\<lparr>dirs := insert folder (dirs w)\<rparr>"
    by simp_all
  have "path_join folder name \<noteq> folder"
    by (simp add: path_join_slash [OF f(1,2)])
  with nodir w1 dirs have "path_join folder name \<notin> dirs w2"
    by simp
  moreover from f(3) dirs have "folder \<in> dirs w2"
    by simp
  ultimately show ?thesis
    using f(2,4) name by (intro open_in_folder)
qed

lemma scrape_website_fetched:
  assumes folder: "create_website_folder url w = (Inr folder, w1)"
    and fetch: "arun crawler url 300 w1 = (Inr result, w2)"
    and data: "extract_listings (html result) = Inr data"
    and nodir: "path_join folder property_data_json \<notin> dirs w"
    and encodable: "list_all (list_all (list_all scalar_value)) data"
  shows "scrape_website crawler url w =
       (Inr (Some data, extracted_content result),
        w2\<lparr>files := (files w2)(path_join folder property_data_json \<mapsto>
           concat (map utf8_char (json_dumps False (Some 2) data)))\<rparr>)"
proof -
  from arun_frame [OF fetch] have d2: "dirs w2 = dirs w1"
    by simp
  have "write_file (path_join folder property_data_json) (iterencode False (Some 2) data) w2 =
      (Inr (), w2\<lparr>files := (files w2)(path_join folder property_data_json \<mapsto>
         concat (map utf8_char (concat (iterencode False (Some 2) data))))\<rparr>)"
    by (rule write_file_encodable [OF open_data_file [OF folder d2 nodir file_names(1-3)]
          scalar_iterencode [OF encodable] iterencode_not_Nil])
  then show ?thesis
    by (simp add: scrape_website_write [OF folder fetch data] json_dumps_def)
qed

text \<open>
  Claim C10. When the parsed network location of the URL is empty, as for a URL without
  scheme such as \<^verbatim>\<open>boliga.dk/nye-boliger\<close>, the folder name is the empty string,
  \<^verbatim>\<open>os.makedirs\<close> raises, and the error leaves \<^verbatim>\<open>scrape_website\<close> and the run with the
  state untouched: no request has been made.
\<close>

theorem empty_netloc_fails_before_fetch:
  assumes "urlparse_netloc url = Inr []"
  shows "first_label [] = [] \<and>
         create_website_folder url w = (Inl FileNotFoundError, w) \<and>
         scrape_website crawler url w = (Inl FileNotFoundError, w) \<and>
         run crawler client url w = (Inl FileNotFoundError, w)"
proof -
  have lab: "first_label [] = []"
    by (simp add: first_label_def)
  with assms have cwf: "create_website_folder url w = (Inl FileNotFoundError, w)"
    by (simp add: create_website_folder_cases makedirs_cases entry_error_Nil)
  then have sw: "scrape_website crawler url w = (Inl FileNotFoundError, w)"
    by (simp add: scrape_website_def bind_action_def)
  then have "run crawler client url w = (Inl FileNotFoundError, w)"
    by (simp add: run_def bind_action_def)
  with lab cwf sw show ?thesis
    by simp
qed

text \<open>The URL of the claim, on a crawler and a completion API that would both succeed.\<close>

theorem empty_netloc_fails_before_fetch_witness:
  "urlparse_netloc (lit ''boliga.dk/nye-boliger'') = Inr [] \<and>
   run example_crawler ok_client (lit ''boliga.dk/nye-boliger'') empty_world =
     (Inl FileNotFoundError, empty_world) \<and>
   requests empty_world = []"
proof -
  have h: "urlparse_netloc (lit ''boliga.dk/nye-boliger'') = Inr []"
    by (simp add: urlparse_netloc_def after_scheme_def lit_def c0_control_or_space_def
        unsafe_url_byte_def ascii_alpha_def scheme_char_def Let_def)
  from empty_netloc_fails_before_fetch [OF h, where crawler = example_crawler and client = ok_client
      and w = empty_world] h
  show ?thesis
    by (simp add: empty_world_def)
qed

text \<open>
  Claim C5. When the rendering fetch never completes, \<^verbatim>\<open>wait_for\<close> raises
  \<^verbatim>\<open>TimeoutError\<close> after its 300 seconds, \<^verbatim>\<open>scrape_website\<close> logs the timeout, the run
  logs the failure and ends, and no file has been written: the data, analysis and
  report files are as they were.
\<close>

theorem rendering_timeout_no_output_files:
  assumes never: "crawler url = Never"
    and folder: "create_website_folder url w = (Inr folder, w1)"
  shows "\<exists>w'. run crawler client url w = (Inr (), w') \<and>
           errors_logged w' = errors_logged w @ [ScrapingTimedOut, ScrapingFailed] \<and>
           waited w' \<le> waited w + 300 \<and>
           requests w' = requests w @ [url] \<and>
           files w' = files w"
proof -
  let ?w2 = "w1\<lparr>requests := requests w1 @ [url], waited := waited w1 + 300\<rparr>"
  from create_website_folder_Inr [OF folder] have w1: "w1 = w\<lparr>dirs := insert folder (dirs w)\<rparr>"
    by simp
  have "scrape_website crawler url w =
      (Inr (None, None), ?w2\<lparr>errors_logged := errors_logged ?w2 @ [ScrapingTimedOut]\<rparr>)"
    using scrape_website_fetch_failed [OF folder arun_Never [of crawler url, OF never]] by simp
  then have "run crawler client url w =
      (Inr (), ?w2\<lparr>errors_logged := errors_logged ?w2 @ [ScrapingTimedOut, ScrapingFailed]\<rparr>)"
    by (simp add: run_def bind_action_def logger_error_def)
  then show ?thesis
    by (simp add: w1)
qed

text \<open>The example URL names the folder \<^verbatim>\<open>www\<close>.\<close>

lemma boliga_netloc: "urlparse_netloc boliga_url = Inr (lit ''www.boliga.dk'')"
  by (simp add: urlparse_netloc_def after_scheme_def lit_def c0_control_or_space_def
      unsafe_url_byte_def ascii_alpha_def scheme_char_def Let_def netloc_delimiter_def
      boliga_url_def)

lemma www_label: "first_label (lit ''www.boliga.dk'') = lit ''www''"
  by (simp add: first_label_def lit_def)

lemma www_accepted: "entry_error (lit ''www'') = None"
  by (simp add: entry_error_def fsencode_def fs_bytes_def scalar_value_def escaped_byte_def
      utf8_char_def name_max_def lit_def)

lemma boliga_folder:
  "create_website_folder boliga_url empty_world = (Inr (lit ''www''), empty_world\<lparr>dirs := {lit ''www''}\<rparr>)"
  by (simp add: create_website_folder_cases boliga_netloc www_label makedirs_cases www_accepted
      empty_world_def)

text \<open>A crawler that never completes, on the example URL and an empty working directory.\<close>

theorem rendering_timeout_no_output_files_witness:
  "never_crawler boliga_url = Never \<and>
   create_website_folder boliga_url empty_world =
     (Inr (lit ''www''), empty_world\<lparr>dirs := {lit ''www''}\<rparr>) \<and>
   (\<exists>w'. run never_crawler ok_client boliga_url empty_world = (Inr (), w') \<and>
      errors_logged w' = [ScrapingTimedOut, ScrapingFailed] \<and> waited w' \<le> 300 \<and>
      files w' = Map.empty)"
proof -
  have never: "never_crawler boliga_url = Never"
    by (simp add: never_crawler_def)
  from rendering_timeout_no_output_files [where crawler = never_crawler and url = boliga_url
      and client = ok_client, OF never boliga_folder]
    never boliga_folder
  show ?thesis
    by (auto simp: empty_world_def)
qed

end
